theory Spec2Isabelle
  imports Complex_Main "HOL-Library.Word" "HOL-Library.Multiset"
begin

section \<open>Numbers, errors and the random source\<close>

text \<open>
  The ray tracer computes with Python floats. The embedding idealises a finite float as a
  real number: \<open>+\<close>, \<open>-\<close>, \<open>*\<close>, \<open>/\<close>, \<open>sqrt\<close> and \<open>tan\<close> are exact, and rounding, overflow
  and NaN are outside the model. What Python raises is kept: a division by zero is
  \<open>ZeroDivisionError\<close> (Python raises it for floats as for ints), \<open>math.sqrt\<close> of a negative
  number is a \<open>ValueError\<close>. The two infinities occur as interval bounds only
  (\<open>utils.infinity\<close>, the defaults of \<open>Interval\<close>); they are the extra values of \<open>ext\<close>.
\<close>

datatype error =
    ZeroDivisionError
  | ValueError string
  | OverflowError
  | IndexError
  | OutOfSamples

text \<open>
  \<open>OutOfSamples\<close> is no Python exception. The process-wide generator behind \<open>random()\<close>
  and \<open>uniform(a, b)\<close> is an explicit supply: the list of the values that the successive
  calls of \<open>random()\<close> return, each in \<open>[0, 1)\<close>. A function that draws returns the rest of
  the supply. A rejection loop that has accepted nothing when the supply ends yields
  \<open>OutOfSamples\<close>: the loop is still running after that many draws.
\<close>

type_synonym samples = "real list"

datatype ext = NegInf | Fin real | PosInf

instantiation ext :: linorder
begin

fun less_eq_ext :: "ext \<Rightarrow> ext \<Rightarrow> bool" where
  "less_eq_ext NegInf b = True"
| "less_eq_ext (Fin a) NegInf = False"
| "less_eq_ext (Fin a) (Fin b) = (a \<le> b)"
| "less_eq_ext (Fin a) PosInf = True"
| "less_eq_ext PosInf PosInf = True"
| "less_eq_ext PosInf b = False"

definition less_ext :: "ext \<Rightarrow> ext \<Rightarrow> bool" where
  "less_ext a b = (a \<le> b \<and> \<not> b \<le> a)"

instance
proof
  fix a b c :: ext
  show "(a < b) = (a \<le> b \<and> \<not> b \<le> a)"
    by (simp add: less_ext_def)
  show "a \<le> a"
    by (cases a) simp_all
  show "a \<le> b \<Longrightarrow> b \<le> c \<Longrightarrow> a \<le> c"
    by (cases a; cases b; cases c) simp_all
  show "a \<le> b \<Longrightarrow> b \<le> a \<Longrightarrow> a = b"
    by (cases a; cases b) simp_all
  show "a \<le> b \<or> b \<le> a"
    by (cases a; cases b) auto
qed

end

text \<open>\<open>random.random()\<close>: the next value of the supply.\<close>

fun random_py :: "samples \<Rightarrow> error + (real \<times> samples)" where
  "random_py [] = Inl OutOfSamples"
| "random_py (s # rs) = Inr (s, rs)"

text \<open>\<open>random.uniform(a, b)\<close> is \<open>a + (b - a) * random()\<close> in the standard library.\<close>

fun uniform :: "real \<Rightarrow> real \<Rightarrow> samples \<Rightarrow> error + (real \<times> samples)" where
  "uniform a b [] = Inl OutOfSamples"
| "uniform a b (s # rs) = Inr (a + (b - a) * s, rs)"

text \<open>\<open>math.sqrt\<close> raises on a negative argument.\<close>

definition math_sqrt :: "real \<Rightarrow> error + real" where
  "math_sqrt v = (if v < 0 then Inl (ValueError ''math domain error'') else Inr (sqrt v))"

text \<open>\<open>int(v)\<close> of a float truncates towards zero.\<close>

definition py_int :: "real \<Rightarrow> int" where
  "py_int v = (if 0 \<le> v then \<lfloor>v\<rfloor> else \<lceil>v\<rceil>)"

section \<open>vec3.py\<close>

datatype Vec3 = from_xyz (vec_x: real) (vec_y: real) (vec_z: real)

type_synonym Point3 = Vec3

instantiation Vec3 :: "{plus, minus, uminus, times}"
begin

definition plus_Vec3 :: "Vec3 \<Rightarrow> Vec3 \<Rightarrow> Vec3" where
  "plus_Vec3 u v = from_xyz (vec_x u + vec_x v) (vec_y u + vec_y v) (vec_z u + vec_z v)"

definition minus_Vec3 :: "Vec3 \<Rightarrow> Vec3 \<Rightarrow> Vec3" where
  "minus_Vec3 u v = from_xyz (vec_x u - vec_x v) (vec_y u - vec_y v) (vec_z u - vec_z v)"

definition times_Vec3 :: "Vec3 \<Rightarrow> Vec3 \<Rightarrow> Vec3" where
  "times_Vec3 u v = from_xyz (vec_x u * vec_x v) (vec_y u * vec_y v) (vec_z u * vec_z v)"

definition uminus_Vec3 :: "Vec3 \<Rightarrow> Vec3" where
  "uminus_Vec3 u = from_xyz (- vec_x u) (- vec_y u) (- vec_z u)"

instance ..

end

text \<open>\<open>Vec3.__mul__\<close> with a float operand.\<close>

definition mul_float :: "Vec3 \<Rightarrow> real \<Rightarrow> Vec3" where
  "mul_float v other = from_xyz (vec_x v * other) (vec_y v * other) (vec_z v * other)"

text \<open>\<open>Vec3.__truediv__\<close> is \<open>self * (1 / other)\<close>; \<open>1 / other\<close> raises when \<open>other\<close> is zero.\<close>

definition truediv :: "Vec3 \<Rightarrow> real \<Rightarrow> error + Vec3" where
  "truediv v other = (if other = 0 then Inl ZeroDivisionError else Inr (mul_float v (1 / other)))"

definition length_squared :: "Vec3 \<Rightarrow> real" where
  "length_squared v = vec_x v * vec_x v + vec_y v * vec_y v + vec_z v * vec_z v"

definition length_vec :: "Vec3 \<Rightarrow> real" where
  "length_vec v = sqrt (length_squared v)"

definition near_zero :: "Vec3 \<Rightarrow> bool" where
  "near_zero v = (let s = 1 / 10 ^ 8 in \<bar>vec_x v\<bar> < s \<and> \<bar>vec_y v\<bar> < s \<and> \<bar>vec_z v\<bar> < s)"

definition dot :: "Vec3 \<Rightarrow> Vec3 \<Rightarrow> real" where
  "dot u v = vec_x u * vec_x v + vec_y u * vec_y v + vec_z u * vec_z v"

definition cross :: "Vec3 \<Rightarrow> Vec3 \<Rightarrow> Vec3" where
  "cross u v = from_xyz (vec_y u * vec_z v - vec_z u * vec_y v)
                        (vec_z u * vec_x v - vec_x u * vec_z v)
                        (vec_x u * vec_y v - vec_y u * vec_x v)"

definition unit_vector :: "Vec3 \<Rightarrow> error + Vec3" where
  "unit_vector v = truediv v (length_vec v)"

text \<open>
  \<open>Vec3.uniform(min, max)\<close>: three draws, in the order of the arguments of \<open>from_xyz\<close>.
\<close>

fun uniform_vec :: "real \<Rightarrow> real \<Rightarrow> samples \<Rightarrow> error + (Vec3 \<times> samples)" where
  "uniform_vec a b (s1 # s2 # s3 # rs) =
     Inr (from_xyz (a + (b - a) * s1) (a + (b - a) * s2) (a + (b - a) * s3), rs)"
| "uniform_vec a b rs = Inl OutOfSamples"

text \<open>
  \<open>random_unit_vector\<close>: the rejection loop \<open>while True\<close>. Each round draws a vector with
  \<open>Vec3.uniform(-1, 1)\<close>; the loop returns at the first round whose squared length lies in
  \<open>(1e-160, 1]\<close>.
\<close>

function random_unit_vector :: "samples \<Rightarrow> error + (Vec3 \<times> samples)" where
  "random_unit_vector rs =
     (case uniform_vec (- 1) 1 rs of
        Inl e \<Rightarrow> Inl e
      | Inr (p, rs') \<Rightarrow>
          (let lensq = length_squared p
           in if 1 / 10 ^ 160 < lensq \<and> lensq \<le> 1
              then (case truediv p (sqrt lensq) of
                      Inl e \<Rightarrow> Inl e
                    | Inr q \<Rightarrow> Inr (q, rs'))
              else random_unit_vector rs'))"
  by pat_completeness auto
termination
  by (relation "measure length") (auto elim: uniform_vec.elims)

text \<open>
  \<open>random_in_unit_disk\<close>: two draws of \<open>uniform(-1, 1)\<close> a round, accepted when the squared
  length is below 1.
\<close>

function random_in_unit_disk :: "samples \<Rightarrow> error + (Vec3 \<times> samples)" where
  "random_in_unit_disk rs =
     (case uniform (- 1) 1 rs of
        Inl e \<Rightarrow> Inl e
      | Inr (v1, rs1) \<Rightarrow>
          (case uniform (- 1) 1 rs1 of
             Inl e \<Rightarrow> Inl e
           | Inr (v2, rs2) \<Rightarrow>
               (let p = from_xyz v1 v2 0
                in if length_squared p < 1 then Inr (p, rs2) else random_in_unit_disk rs2)))"
  by pat_completeness auto
termination
  by (relation "measure length") (auto elim!: uniform.elims)

definition reflect :: "Vec3 \<Rightarrow> Vec3 \<Rightarrow> Vec3" where
  "reflect v n = v - mul_float (mul_float n (dot v n)) 2"

definition refract :: "Vec3 \<Rightarrow> Vec3 \<Rightarrow> real \<Rightarrow> Vec3" where
  "refract uv n relative_refractive_index =
     (let cos_theta = min (dot (- uv) n) 1;
          r_out_perp = mul_float (uv + mul_float n cos_theta) relative_refractive_index;
          r_out_parallel = mul_float n (- sqrt \<bar>1 - length_squared r_out_perp\<bar>)
      in r_out_perp + r_out_parallel)"

section \<open>ray.py and interval.py\<close>

record Ray =
  origin :: Point3
  direction :: Vec3

definition at_t :: "Ray \<Rightarrow> real \<Rightarrow> Point3" where
  "at_t r t = origin r + mul_float (direction r) t"

record Interval =
  min_v :: ext
  max_v :: ext

definition contains :: "Interval \<Rightarrow> real \<Rightarrow> bool" where
  "contains iv v = (min_v iv \<le> Fin v \<and> Fin v \<le> max_v iv)"

definition surrounds :: "Interval \<Rightarrow> real \<Rightarrow> bool" where
  "surrounds iv v = (min_v iv < Fin v \<and> Fin v < max_v iv)"

definition clamp :: "Interval \<Rightarrow> real \<Rightarrow> ext" where
  "clamp iv v = (if Fin v < min_v iv then min_v iv
                 else if Fin v > max_v iv then max_v iv
                 else Fin v)"

section \<open>core.py and material.py\<close>

type_synonym Color = Vec3

datatype Material =
    Lambertian Color
  | Metal Color real
  | Dielectric real

record HitRecord =
  p_hit :: Point3
  normal :: Vec3
  t_hit :: real
  material :: Material
  front_face :: bool

record ScatterRecord =
  attenuation :: Color
  scattered :: Ray

text \<open>\<open>Metal.__post_init__\<close>: the check that runs when a \<open>Metal\<close> is constructed.\<close>

definition Metal_init :: "Color \<Rightarrow> real \<Rightarrow> error + Material" where
  "Metal_init albedo fuzz =
     (if fuzz < 0 \<or> fuzz > 1 then Inl (ValueError ''Fuzz is out of range'')
      else Inr (Metal albedo fuzz))"

text \<open>
  Every \<open>scatter\<close> has the return type \<open>Optional[ScatterRecord]\<close> of \<open>core.Material\<close>, and draws
  from the random source: the result is the optional record and the rest of the supply.
\<close>

definition Lambertian_scatter ::
  "Color \<Rightarrow> Ray \<Rightarrow> HitRecord \<Rightarrow> samples \<Rightarrow> error + (ScatterRecord option \<times> samples)" where
  "Lambertian_scatter albedo r hit_record rs =
     (case random_unit_vector rs of
        Inl e \<Rightarrow> Inl e
      | Inr (v, rs') \<Rightarrow>
          (let scatter_direction = normal hit_record + v;
               scatter_direction' =
                 (if near_zero scatter_direction then normal hit_record else scatter_direction);
               scattered_ray = \<lparr>origin = p_hit hit_record, direction = scatter_direction'\<rparr>
           in Inr (Some \<lparr>attenuation = albedo, scattered = scattered_ray\<rparr>, rs')))"

text \<open>
  In \<open>Metal.scatter\<close> the left operand \<open>unit_vector(reflected)\<close> is evaluated before the
  right operand draws the random unit vector.

  Over the reals \<open>unit_vector\<close> raises for the zero vector only. With doubles the squared
  length of a non-zero vector can underflow to \<open>0.0\<close>, as for \<open>(3e-170, 0, -4e-170)\<close>, and
  \<open>unit_vector\<close> raises for such a vector as well. \<open>Metal.scatter\<close> is called from
  \<open>ray_color\<close> only, with a ray and the record that the scene query has returned for it;
  \<open>Sphere.hit\<close> divides by the squared length of the direction and raises when that is
  zero, so no record exists for such a ray. The statement on \<open>Metal.scatter\<close> below is about
  the pairs of a ray and a record that \<open>hit\<close> returns.
\<close>

definition Metal_scatter ::
  "Color \<Rightarrow> real \<Rightarrow> Ray \<Rightarrow> HitRecord \<Rightarrow> samples \<Rightarrow> error + (ScatterRecord option \<times> samples)"
  where
  "Metal_scatter albedo fuzz r hit_record rs =
     (let reflected = reflect (direction r) (normal hit_record)
      in case unit_vector reflected of
           Inl e \<Rightarrow> Inl e
         | Inr u \<Rightarrow>
             (case random_unit_vector rs of
                Inl e \<Rightarrow> Inl e
              | Inr (v, rs') \<Rightarrow>
                  (let reflected' = u + mul_float v fuzz;
                       scattered_ray = \<lparr>origin = p_hit hit_record, direction = reflected'\<rparr>
                   in Inr (Some \<lparr>attenuation = albedo, scattered = scattered_ray\<rparr>, rs'))))"

text \<open>Float division: \<open>a / b\<close> raises when \<open>b\<close> is zero.\<close>

definition py_div :: "real \<Rightarrow> real \<Rightarrow> error + real" where
  "py_div a b = (if b = 0 then Inl ZeroDivisionError else Inr (a / b))"

definition reflectance :: "real \<Rightarrow> real \<Rightarrow> error + real" where
  "reflectance cosine refraction_index =
     (case py_div (1 - refraction_index) (1 + refraction_index) of
        Inl e \<Rightarrow> Inl e
      | Inr r0 \<Rightarrow>
          (let r0' = r0 * r0
           in Inr (r0' + (1 - r0') * (1 - cosine) ^ 5)))"

text \<open>
  In \<open>Dielectric.scatter\<close> the condition is \<open>cannot_refract or self.reflectance(...) >
  random.random()\<close>: when \<open>cannot_refract\<close> holds, \<open>or\<close> evaluates neither the reflectance
  nor \<open>random.random()\<close>, and no value is drawn.
\<close>

definition Dielectric_scatter ::
  "real \<Rightarrow> Ray \<Rightarrow> HitRecord \<Rightarrow> samples \<Rightarrow> error + (ScatterRecord option \<times> samples)" where
  "Dielectric_scatter refraction_index r_in hit_record rs =
     (let attenuation_color = from_xyz 1 1 1
      in case (if front_face hit_record then py_div 1 refraction_index
               else Inr refraction_index) of
           Inl e \<Rightarrow> Inl e
         | Inr ri \<Rightarrow>
        (case unit_vector (direction r_in) of
           Inl e \<Rightarrow> Inl e
         | Inr unit_direction \<Rightarrow>
        (let cos_theta = min (dot (- unit_direction) (normal hit_record)) 1
         in case math_sqrt (1 - cos_theta * cos_theta) of
           Inl e \<Rightarrow> Inl e
         | Inr sin_theta \<Rightarrow>
        (let cannot_refract = (ri * sin_theta > 1)
         in case (if cannot_refract then Inr (True, rs)
                  else (case reflectance cos_theta ri of
                          Inl e \<Rightarrow> Inl e
                        | Inr prob \<Rightarrow>
                            (case random_py rs of
                               Inl e \<Rightarrow> Inl e
                             | Inr (s, rs') \<Rightarrow> Inr (prob > s, rs')))) of
           Inl e \<Rightarrow> Inl e
         | Inr (choose_reflect, rs') \<Rightarrow>
        (let new_direction =
               (if choose_reflect then reflect unit_direction (normal hit_record)
                else refract unit_direction (normal hit_record) ri);
             scattered_ray = \<lparr>origin = p_hit hit_record, direction = new_direction\<rparr>
         in Inr (Some \<lparr>attenuation = attenuation_color, scattered = scattered_ray\<rparr>,
                 rs'))))))"

text \<open>The dynamic dispatch of \<open>record.material.scatter(ray, record)\<close>.\<close>

fun scatter ::
  "Material \<Rightarrow> Ray \<Rightarrow> HitRecord \<Rightarrow> samples \<Rightarrow> error + (ScatterRecord option \<times> samples)" where
  "scatter (Lambertian albedo) r hit_record rs = Lambertian_scatter albedo r hit_record rs"
| "scatter (Metal albedo fuzz) r hit_record rs = Metal_scatter albedo fuzz r hit_record rs"
| "scatter (Dielectric refraction_index) r hit_record rs =
     Dielectric_scatter refraction_index r hit_record rs"

section \<open>hittable.py\<close>

text \<open>
  The hittables of the repository are \<open>Sphere\<close> and \<open>World\<close>; a \<open>World\<close> holds a list of
  hittables, so a world may hold worlds.
\<close>

datatype Hittable =
    Sphere Point3 real Material
  | World "Hittable list"

text \<open>\<open>Sphere.__post_init__\<close>: the check that runs when a \<open>Sphere\<close> is constructed.\<close>

definition Sphere_init :: "Point3 \<Rightarrow> real \<Rightarrow> Material \<Rightarrow> error + Hittable" where
  "Sphere_init center radius mat =
     (if radius \<le> 0 then Inl (ValueError ''Radius can't be 0 or less'')
      else Inr (Sphere center radius mat))"

text \<open>
  An \<open>Interval\<close> is a mutable object, passed by reference. A \<open>hit\<close> therefore returns, beside
  its result, the state in which it leaves the interval object it was given.

  \<open>Sphere.hit\<close> only reads its interval. The variable \<open>root\<close> is the first root when the
  interval surrounds it, else the second root when the interval surrounds that one.
\<close>

definition Sphere_hit ::
  "Point3 \<Rightarrow> real \<Rightarrow> Material \<Rightarrow> Ray \<Rightarrow> Interval \<Rightarrow> error + (HitRecord option \<times> Interval)" where
  "Sphere_hit center radius mat r t_range =
     (let oc = center - origin r;
          a = length_squared (direction r);
          h = dot (direction r) oc;
          c = length_squared oc - radius * radius;
          discriminant = h * h - a * c
      in if discriminant < 0 then Inr (None, t_range)
         else
          (let sqrtd = sqrt discriminant
           in case py_div (h - sqrtd) a of
                Inl e \<Rightarrow> Inl e
              | Inr root1 \<Rightarrow>
             (case (if \<not> surrounds t_range root1
                    then (case py_div (h + sqrtd) a of
                            Inl e \<Rightarrow> Inl e
                          | Inr root2 \<Rightarrow>
                              if \<not> surrounds t_range root2 then Inr None else Inr (Some root2))
                    else Inr (Some root1)) of
                Inl e \<Rightarrow> Inl e
              | Inr None \<Rightarrow> Inr (None, t_range)
              | Inr (Some chosen_root) \<Rightarrow>
                 (let point = at_t r chosen_root
                  in case truediv (point - center) radius of
                       Inl e \<Rightarrow> Inl e
                     | Inr outward_normal \<Rightarrow>
                        (let ff = (dot (direction r) outward_normal < 0);
                             n = (if ff then outward_normal else - outward_normal)
                         in Inr (Some \<lparr>p_hit = point, normal = n, t_hit = chosen_root,
                                       material = mat, front_face = ff\<rparr>,
                                 t_range))))))"

text \<open>
  \<open>World.hit\<close> copies the interval it was given (\<open>copy.copy\<close>) and runs the loop on the
  copy \<open>curr_range\<close>. \<open>World_loop\<close> is the \<open>for\<close> loop: its state is \<open>curr_range\<close> and
  \<open>closest_record\<close>; each object is handed \<open>curr_range\<close> and leaves it in the state the
  loop goes on with; a hit narrows \<open>curr_range.max\<close>. The caller's own interval is the
  object \<open>t_range\<close>, which the body never assigns to.
\<close>

fun hit :: "Hittable \<Rightarrow> Ray \<Rightarrow> Interval \<Rightarrow> error + (HitRecord option \<times> Interval)"
and World_loop ::
  "Hittable list \<Rightarrow> Ray \<Rightarrow> Interval \<Rightarrow> HitRecord option \<Rightarrow> error + (HitRecord option \<times> Interval)"
where
  "hit (Sphere center radius mat) r t_range = Sphere_hit center radius mat r t_range"
| "hit (World objs) r t_range =
     (let curr_range = t_range
      in case World_loop objs r curr_range None of
           Inl e \<Rightarrow> Inl e
         | Inr (closest_record, curr_range') \<Rightarrow> Inr (closest_record, t_range))"
| "World_loop [] r curr_range closest_record = Inr (closest_record, curr_range)"
| "World_loop (obj # objs) r curr_range closest_record =
     (case hit obj r curr_range of
        Inl e \<Rightarrow> Inl e
      | Inr (None, curr_range') \<Rightarrow> World_loop objs r curr_range' closest_record
      | Inr (Some object_record, curr_range') \<Rightarrow>
          World_loop objs r (curr_range'\<lparr>max_v := Fin (t_hit object_record)\<rparr>)
            (Some object_record))"

section \<open>color.py\<close>

definition linear_to_gamma :: "real \<Rightarrow> real" where
  "linear_to_gamma linear_component =
     (if linear_component > 0 then sqrt linear_component else 0)"

definition red :: "Color \<Rightarrow> real" where
  "red c = vec_x c"

definition green :: "Color \<Rightarrow> real" where
  "green c = vec_y c"

definition blue :: "Color \<Rightarrow> real" where
  "blue c = vec_z c"

text \<open>
  \<open>Interval.clamp\<close> returns a bound of the interval or its argument, so its value may be an
  infinity. \<open>256 * v\<close> keeps an infinity, and \<open>int\<close> of an infinity raises \<open>OverflowError\<close>.
\<close>

fun times_256 :: "ext \<Rightarrow> ext" where
  "times_256 (Fin v) = Fin (256 * v)"
| "times_256 PosInf = PosInf"
| "times_256 NegInf = NegInf"

fun int_of_float :: "ext \<Rightarrow> error + int" where
  "int_of_float (Fin v) = Inr (py_int v)"
| "int_of_float PosInf = Inl OverflowError"
| "int_of_float NegInf = Inl OverflowError"

definition make_color_array :: "Color \<Rightarrow> error + int list" where
  "make_color_array color =
     (let r = linear_to_gamma (red color);
          g = linear_to_gamma (green color);
          b = linear_to_gamma (blue color);
          intensity = \<lparr>min_v = Fin 0, max_v = Fin (999 / 1000)\<rparr>
      in case int_of_float (times_256 (clamp intensity r)) of
           Inl e \<Rightarrow> Inl e
         | Inr ir \<Rightarrow>
        (case int_of_float (times_256 (clamp intensity g)) of
           Inl e \<Rightarrow> Inl e
         | Inr ig \<Rightarrow>
        (case int_of_float (times_256 (clamp intensity b)) of
           Inl e \<Rightarrow> Inl e
         | Inr ib \<Rightarrow> Inr [ir, ig, ib])))"

section \<open>utils.py and camera.py\<close>

definition degrees_to_radians :: "real \<Rightarrow> real" where
  "degrees_to_radians degrees = (degrees * pi) / 180"

text \<open>
  The fields that \<open>Camera.__init__\<close> sets. \<open>max_depth\<close> is the recursion budget of
  \<open>ray_color\<close>, a count: it is a natural number here.
\<close>

record Camera =
  image_width :: int
  samples_per_pixel :: int
  image_height :: int
  max_depth :: nat
  defocus_angle :: real
  camera_center :: Point3
  pixel_delta_u :: Vec3
  pixel_delta_v :: Vec3
  pixel00_loc :: Point3
  defocus_disk_u :: Vec3
  defocus_disk_v :: Vec3

text \<open>
  \<open>Camera.__init__\<close>, statement by statement. \<open>lookfrom\<close>, \<open>lookat\<close> and \<open>vup\<close> are optional
  arguments (\<open>x or default\<close>; a \<open>Vec3\<close> object is always true). The divisions by the literal
  \<open>2\<close> cannot raise and are written as the multiplication by \<open>1 / 2\<close> that \<open>__truediv__\<close>
  performs.

  The reals and the doubles part on an up vector collinear with the view direction. Over the
  reals \<open>cross(vup, w)\<close> is then exactly the zero vector and \<open>unit_vector\<close> raises. With doubles
  \<open>w\<close> is rounded, the cross product may be a non-zero residue, and \<open>unit_vector\<close> normalises
  the residue without an exception: \<open>lookfrom = vup = (3, 5, 7)\<close> and \<open>lookat = (0, 0, 0)\<close> give
  \<open>cross(vup, w) = (0.0, -4.4e-16, 2.2e-16)\<close> and a camera. The value of \<open>Camera_init\<close> on a
  collinear up vector is therefore that of the code only where the doubles are exact, as on
  axis-aligned vectors. For \<open>lookfrom\<close> equal to \<open>lookat\<close> the difference is the zero vector
  in doubles as over the reals. A quotient \<open>image_width / aspect_ratio\<close> beyond the range of a
  float makes \<open>int\<close> raise \<open>OverflowError\<close> in the first statements; overflow is outside the
  model.
\<close>

definition Camera_init ::
  "real \<Rightarrow> int \<Rightarrow> int \<Rightarrow> nat \<Rightarrow> real \<Rightarrow> Point3 option \<Rightarrow> Point3 option \<Rightarrow> Vec3 option \<Rightarrow>
   real \<Rightarrow> real \<Rightarrow> error + Camera" where
  "Camera_init aspect_ratio width spp depth vfov lookfrom lookat vup defocus focus_dist =
     (case py_div (real_of_int width) aspect_ratio of
        Inl e \<Rightarrow> Inl e
      | Inr ratio \<Rightarrow>
     (let height = max 1 (py_int ratio);
          lookfrom' = (case lookfrom of Some v \<Rightarrow> v | None \<Rightarrow> from_xyz 0 0 0);
          lookat' = (case lookat of Some v \<Rightarrow> v | None \<Rightarrow> from_xyz 0 0 (- 1));
          vup' = (case vup of Some v \<Rightarrow> v | None \<Rightarrow> from_xyz 0 1 0);
          theta = degrees_to_radians vfov;
          h = tan (theta / 2);
          viewport_height = 2 * h * focus_dist;
          viewport_width = viewport_height * (real_of_int width / real_of_int height);
          center = lookfrom'
      in case unit_vector (lookfrom' - lookat') of
           Inl e \<Rightarrow> Inl e
         | Inr w \<Rightarrow>
        (case unit_vector (cross vup' w) of
           Inl e \<Rightarrow> Inl e
         | Inr u \<Rightarrow>
        (let v = cross w u;
             viewport_u = mul_float u viewport_width;
             viewport_v = mul_float (- v) viewport_height
         in case truediv viewport_u (real_of_int width) of
              Inl e \<Rightarrow> Inl e
            | Inr delta_u \<Rightarrow>
           (case truediv viewport_v (real_of_int height) of
              Inl e \<Rightarrow> Inl e
            | Inr delta_v \<Rightarrow>
           (let viewport_upper_left =
                  center - mul_float w focus_dist - mul_float viewport_u (1 / 2)
                    - mul_float viewport_v (1 / 2);
                pixel00 = viewport_upper_left + mul_float (delta_u + delta_v) (1 / 2);
                defocus_radius = tan (degrees_to_radians (defocus / 2)) * focus_dist
            in Inr \<lparr>image_width = width, samples_per_pixel = spp, image_height = height,
                     max_depth = depth, defocus_angle = defocus, camera_center = center,
                     pixel_delta_u = delta_u, pixel_delta_v = delta_v, pixel00_loc = pixel00,
                     defocus_disk_u = mul_float u defocus_radius,
                     defocus_disk_v = mul_float v defocus_radius\<rparr>))))))"

text \<open>\<open>sample_square\<close>: two draws, the first for the x offset.\<close>

definition sample_square :: "samples \<Rightarrow> error + (Vec3 \<times> samples)" where
  "sample_square rs =
     (case random_py rs of
        Inl e \<Rightarrow> Inl e
      | Inr (s1, rs1) \<Rightarrow>
          (case random_py rs1 of
             Inl e \<Rightarrow> Inl e
           | Inr (s2, rs2) \<Rightarrow> Inr (from_xyz (s1 - 1 / 2) (s2 - 1 / 2) 0, rs2)))"

definition defocus_disk_sample :: "Camera \<Rightarrow> samples \<Rightarrow> error + (Point3 \<times> samples)" where
  "defocus_disk_sample cam rs =
     (case random_in_unit_disk rs of
        Inl e \<Rightarrow> Inl e
      | Inr (p, rs') \<Rightarrow>
          Inr (camera_center cam + mul_float (defocus_disk_u cam) (vec_x p)
                 + mul_float (defocus_disk_v cam) (vec_y p), rs'))"

definition get_ray :: "Camera \<Rightarrow> nat \<Rightarrow> nat \<Rightarrow> samples \<Rightarrow> error + (Ray \<times> samples)" where
  "get_ray cam i j rs =
     (case sample_square rs of
        Inl e \<Rightarrow> Inl e
      | Inr (offset, rs1) \<Rightarrow>
          (let pixel_sample =
                 pixel00_loc cam + mul_float (pixel_delta_u cam) (real i + vec_x offset)
                   + mul_float (pixel_delta_v cam) (real j + vec_y offset)
           in case (if defocus_angle cam \<le> 0 then Inr (camera_center cam, rs1)
                    else defocus_disk_sample cam rs1) of
                Inl e \<Rightarrow> Inl e
              | Inr (ray_origin, rs2) \<Rightarrow>
                  Inr (\<lparr>origin = ray_origin, direction = pixel_sample - ray_origin\<rparr>, rs2)))"

text \<open>
  \<open>ray_color\<close> reads no field of the camera. The interval \<open>Interval(0.001, infinity)\<close> is a
  fresh object of each call.
\<close>

fun ray_color :: "Ray \<Rightarrow> Hittable \<Rightarrow> nat \<Rightarrow> samples \<Rightarrow> error + (Color \<times> samples)" where
  "ray_color ray world 0 rs = Inr (from_xyz 0 0 0, rs)"
| "ray_color ray world (Suc depth) rs =
     (let t_range = \<lparr>min_v = Fin (1 / 1000), max_v = PosInf\<rparr>
      in case hit world ray t_range of
           Inl e \<Rightarrow> Inl e
         | Inr (Some record, t_range') \<Rightarrow>
             (case scatter (material record) ray record rs of
                Inl e \<Rightarrow> Inl e
              | Inr (Some scatter_record, rs1) \<Rightarrow>
                  (case ray_color (scattered scatter_record) world depth rs1 of
                     Inl e \<Rightarrow> Inl e
                   | Inr (c, rs2) \<Rightarrow> Inr (attenuation scatter_record * c, rs2))
              | Inr (None, rs1) \<Rightarrow> Inr (from_xyz 0 0 0, rs1))
         | Inr (None, t_range') \<Rightarrow>
             (case unit_vector (direction ray) of
                Inl e \<Rightarrow> Inl e
              | Inr unit_direction \<Rightarrow>
                  (let a = (vec_y unit_direction + 1) * (1 / 2)
                   in Inr (mul_float (from_xyz 1 1 1) (1 - a)
                             + mul_float (from_xyz (1 / 2) (7 / 10) 1) a, rs))))"

text \<open>
  The sampling loop \<open>for _ in range(self.samples_per_pixel)\<close> of one pixel, with the
  accumulator \<open>pixel\<close>.
\<close>

fun sample_loop ::
  "Camera \<Rightarrow> Hittable \<Rightarrow> nat \<Rightarrow> nat \<Rightarrow> nat \<Rightarrow> Color \<Rightarrow> samples \<Rightarrow> error + (Color \<times> samples)" where
  "sample_loop cam world i j 0 pixel rs = Inr (pixel, rs)"
| "sample_loop cam world i j (Suc n) pixel rs =
     (case get_ray cam i j rs of
        Inl e \<Rightarrow> Inl e
      | Inr (r, rs1) \<Rightarrow>
          (case ray_color r world (max_depth cam) rs1 of
             Inl e \<Rightarrow> Inl e
           | Inr (c, rs2) \<Rightarrow> sample_loop cam world i j n (pixel + c) rs2))"

text \<open>\<open>np.clip(rgb, 0, 255).astype(np.uint8)\<close>.\<close>

definition clip_uint8 :: "int list \<Rightarrow> 8 word list" where
  "clip_uint8 rgb = map (\<lambda>v. word_of_int (min (max v 0) 255)) rgb"

text \<open>
  The body that \<open>process_chunk\<close> and \<open>_save_image_to_png\<close> both run for the pixel \<open>(j, i)\<close>: the
  sampling loop, the mean \<open>pixel / self.samples_per_pixel\<close>, \<open>make_color_array\<close> and the
  clipping. The two methods hold the same statements.
\<close>

definition pixel_body ::
  "Camera \<Rightarrow> Hittable \<Rightarrow> nat \<Rightarrow> nat \<Rightarrow> samples \<Rightarrow> error + (8 word list \<times> samples)" where
  "pixel_body cam world j i rs =
     (case sample_loop cam world i j (nat (samples_per_pixel cam)) (from_xyz 0 0 0) rs of
        Inl e \<Rightarrow> Inl e
      | Inr (pixel, rs') \<Rightarrow>
          (case truediv pixel (real_of_int (samples_per_pixel cam)) of
             Inl e \<Rightarrow> Inl e
           | Inr mean \<Rightarrow>
               (case make_color_array mean of
                  Inl e \<Rightarrow> Inl e
                | Inr rgb \<Rightarrow> Inr (clip_uint8 rgb, rs'))))"

text \<open>
  The frame buffer \<open>color_array\<close>: \<open>image_height\<close> rows of \<open>image_width\<close> pixels of three
  bytes. \<open>np.zeros\<close> refuses a negative dimension. An assignment \<open>color_array[j, i] = color\<close>
  outside the array raises \<open>IndexError\<close>.
\<close>

type_synonym framebuffer = "8 word list list list"

definition np_zeros :: "int \<Rightarrow> int \<Rightarrow> error + framebuffer" where
  "np_zeros height width =
     (if height < 0 \<or> width < 0 then Inl (ValueError ''negative dimensions are not allowed'')
      else Inr (replicate (nat height) (replicate (nat width) [0, 0, 0])))"

definition set_pixel :: "framebuffer \<Rightarrow> nat \<Rightarrow> nat \<Rightarrow> 8 word list \<Rightarrow> error + framebuffer" where
  "set_pixel color_array j i color =
     (if j < length color_array \<and> i < length (color_array ! j)
      then Inr (color_array[j := (color_array ! j)[i := color]])
      else Inl IndexError)"

text \<open>\<open>process_chunk\<close>: the pixels of the chunk in order, on the generator of the worker.\<close>

fun process_chunk ::
  "Camera \<Rightarrow> Hittable \<Rightarrow> (nat \<times> nat) list \<Rightarrow> samples \<Rightarrow>
   error + (((nat \<times> nat) \<times> 8 word list) list \<times> samples)" where
  "process_chunk cam world [] rs = Inr ([], rs)"
| "process_chunk cam world ((j, i) # chunk) rs =
     (case pixel_body cam world j i rs of
        Inl e \<Rightarrow> Inl e
      | Inr (color, rs1) \<Rightarrow>
          (case process_chunk cam world chunk rs1 of
             Inl e \<Rightarrow> Inl e
           | Inr (chunk_pixels, rs2) \<Rightarrow> Inr (((j, i), color) # chunk_pixels, rs2)))"

text \<open>
  \<open>range(0, stop, step)\<close> for a step that is not negative: a zero step raises, a positive one
  gives the multiples of \<open>step\<close> below \<open>stop\<close>.
\<close>

definition range_step :: "nat \<Rightarrow> nat \<Rightarrow> error + nat list" where
  "range_step stop step =
     (if step = 0 then Inl (ValueError ''range() arg 3 must not be zero'')
      else Inr (map (\<lambda>k. k * step) [0..<(stop + step - 1) div step]))"

definition all_pixels :: "nat \<Rightarrow> nat \<Rightarrow> (nat \<times> nat) list" where
  "all_pixels height width = concat (map (\<lambda>j. map (\<lambda>i. (j, i)) [0..<width]) [0..<height])"

text \<open>
  The chunks of \<open>save_image_to_png\<close>: \<open>num_chunks = cpu_count() * 8\<close>, \<open>chunk_size = len(pixels)
  // num_chunks\<close>, and one slice \<open>pixels[i : i + chunk_size]\<close> for each \<open>i\<close> of the range.
\<close>

definition make_chunks :: "(nat \<times> nat) list \<Rightarrow> nat \<Rightarrow> error + (nat \<times> nat) list list" where
  "make_chunks pixels num_chunks =
     (if num_chunks = 0 then Inl ZeroDivisionError
      else (let chunk_size = length pixels div num_chunks
            in case range_step (length pixels) chunk_size of
                 Inl e \<Rightarrow> Inl e
               | Inr starts \<Rightarrow> Inr (map (\<lambda>i. take chunk_size (drop i pixels)) starts)))"

text \<open>The merge loops of \<open>save_image_to_png\<close>.\<close>

fun merge_chunk :: "((nat \<times> nat) \<times> 8 word list) list \<Rightarrow> framebuffer \<Rightarrow> error + framebuffer" where
  "merge_chunk [] color_array = Inr color_array"
| "merge_chunk (((j, i), color) # chunk) color_array =
     (case set_pixel color_array j i color of
        Inl e \<Rightarrow> Inl e
      | Inr color_array' \<Rightarrow> merge_chunk chunk color_array')"

fun merge_results ::
  "((nat \<times> nat) \<times> 8 word list) list list \<Rightarrow> framebuffer \<Rightarrow> error + framebuffer" where
  "merge_results [] color_array = Inr color_array"
| "merge_results (chunk # results) color_array =
     (case merge_chunk chunk color_array of
        Inl e \<Rightarrow> Inl e
      | Inr color_array' \<Rightarrow> merge_results results color_array')"

text \<open>
  The pool. \<open>imap_unordered\<close> yields the results of the chunks in the order in which the
  workers finish: \<open>order\<close> lists the indices of the chunks in that order. Chunk \<open>k\<close> runs on
  the generator of its worker, in the state \<open>supplies k\<close>. Collecting the results re-raises
  the exception of the first failed chunk it meets.
\<close>

fun collect_results ::
  "(error + ('a \<times> samples)) list \<Rightarrow> error + 'a list" where
  "collect_results [] = Inr []"
| "collect_results (Inl e # rest) = Inl e"
| "collect_results (Inr (x, rs) # rest) =
     (case collect_results rest of
        Inl e \<Rightarrow> Inl e
      | Inr xs \<Rightarrow> Inr (x # xs))"

definition save_image_to_png ::
  "Camera \<Rightarrow> Hittable \<Rightarrow> nat \<Rightarrow> (nat \<Rightarrow> samples) \<Rightarrow> nat list \<Rightarrow> error + framebuffer" where
  "save_image_to_png cam world cpu_count supplies order =
     (case np_zeros (image_height cam) (image_width cam) of
        Inl e \<Rightarrow> Inl e
      | Inr color_array \<Rightarrow>
          (let pixels = all_pixels (nat (image_height cam)) (nat (image_width cam));
               num_chunks = cpu_count * 8
           in case make_chunks pixels num_chunks of
                Inl e \<Rightarrow> Inl e
              | Inr chunks \<Rightarrow>
                  (case collect_results
                          (map (\<lambda>k. process_chunk cam world (chunks ! k) (supplies k)) order) of
                     Inl e \<Rightarrow> Inl e
                   | Inr results \<Rightarrow> merge_results results color_array)))"

text \<open>\<open>_save_image_to_png\<close>: the two nested loops, on the one generator of the process.\<close>

fun serial_row ::
  "Camera \<Rightarrow> Hittable \<Rightarrow> nat \<Rightarrow> nat list \<Rightarrow> framebuffer \<Rightarrow> samples \<Rightarrow>
   error + (framebuffer \<times> samples)" where
  "serial_row cam world j [] color_array rs = Inr (color_array, rs)"
| "serial_row cam world j (i # cols) color_array rs =
     (case pixel_body cam world j i rs of
        Inl e \<Rightarrow> Inl e
      | Inr (color, rs1) \<Rightarrow>
          (case set_pixel color_array j i color of
             Inl e \<Rightarrow> Inl e
           | Inr color_array' \<Rightarrow> serial_row cam world j cols color_array' rs1))"

fun serial_rows ::
  "Camera \<Rightarrow> Hittable \<Rightarrow> nat list \<Rightarrow> framebuffer \<Rightarrow> samples \<Rightarrow>
   error + (framebuffer \<times> samples)" where
  "serial_rows cam world [] color_array rs = Inr (color_array, rs)"
| "serial_rows cam world (j # rows) color_array rs =
     (case serial_row cam world j [0..<nat (image_width cam)] color_array rs of
        Inl e \<Rightarrow> Inl e
      | Inr (color_array', rs1) \<Rightarrow> serial_rows cam world rows color_array' rs1)"

definition save_image_to_png_serial ::
  "Camera \<Rightarrow> Hittable \<Rightarrow> samples \<Rightarrow> error + framebuffer" where
  "save_image_to_png_serial cam world rs =
     (case np_zeros (image_height cam) (image_width cam) of
        Inl e \<Rightarrow> Inl e
      | Inr color_array \<Rightarrow>
          (case serial_rows cam world [0..<nat (image_height cam)] color_array rs of
             Inl e \<Rightarrow> Inl e
           | Inr (color_array', rs') \<Rightarrow> Inr color_array'))"

section \<open>Vocabulary of the statements\<close>

text \<open>
  \<open>below b res\<close> is the result \<open>res\<close> of a hit test when its parameter \<open>t\<close> lies below the
  bound \<open>b\<close>, and no hit otherwise: what a hit test finds once the upper end of its interval
  has been narrowed to \<open>b\<close>.
\<close>

definition below :: "ext \<Rightarrow> HitRecord option \<Rightarrow> HitRecord option" where
  "below b res = (case res of None \<Rightarrow> None
                  | Some h \<Rightarrow> if Fin (t_hit h) < b then Some h else None)"

section \<open>Basic facts\<close>

declare random_unit_vector.simps [simp del]
declare random_in_unit_disk.simps [simp del]

lemma plus_from_xyz [simp]:
  "from_xyz a b c + from_xyz d e f = from_xyz (a + d) (b + e) (c + f)"
  by (simp add: plus_Vec3_def)

lemma minus_from_xyz [simp]:
  "from_xyz a b c - from_xyz d e f = from_xyz (a - d) (b - e) (c - f)"
  by (simp add: minus_Vec3_def)

lemma times_from_xyz [simp]:
  "from_xyz a b c * from_xyz d e f = from_xyz (a * d) (b * e) (c * f)"
  by (simp add: times_Vec3_def)

lemma uminus_from_xyz [simp]:
  "- from_xyz a b c = from_xyz (- a) (- b) (- c)"
  by (simp add: uminus_Vec3_def)

lemma mul_float_from_xyz [simp]:
  "mul_float (from_xyz a b c) k = from_xyz (a * k) (b * k) (c * k)"
  by (simp add: mul_float_def)

lemma dot_from_xyz [simp]:
  "dot (from_xyz a b c) (from_xyz d e f) = a * d + b * e + c * f"
  by (simp add: dot_def)

lemma length_squared_from_xyz [simp]:
  "length_squared (from_xyz a b c) = a * a + b * b + c * c"
  by (simp add: length_squared_def)

lemma dot_uminus_right: "dot u (- v) = - dot u v"
  by (cases u; cases v) simp

lemma ext_less_simps [simp]:
  "Fin a < Fin b \<longleftrightarrow> a < b"
  "Fin a < PosInf"
  "NegInf < Fin a"
  "NegInf < PosInf"
  by (auto simp: less_ext_def)

lemma ext_less_never [simp]:
  "\<not> PosInf < e"
  "\<not> e < NegInf"
  by (cases e; simp add: less_ext_def)+

lemma ext_le_simps [simp]:
  "e \<le> PosInf"
  "PosInf \<le> e \<longleftrightarrow> e = PosInf"
  "e \<le> NegInf \<longleftrightarrow> e = NegInf"
  by (cases e; simp; fail)+

lemma Lambertian_scatter_origin:
  assumes "Lambertian_scatter albedo r hit_record rs = Inr (Some sr, rs')"
  shows "origin (scattered sr) = p_hit hit_record"
  using assms unfolding Lambertian_scatter_def Let_def
  by (auto split: sum.splits prod.splits)

lemma Metal_scatter_result:
  assumes "Metal_scatter albedo fuzz r hit_record rs = Inr (res, rs')"
  shows "\<exists>d. res = Some \<lparr>attenuation = albedo,
                  scattered = \<lparr>origin = p_hit hit_record, direction = d\<rparr>\<rparr>"
  using assms unfolding Metal_scatter_def Let_def
  by (auto split: sum.splits prod.splits)


lemma Dielectric_scatter_steps:
  assumes "Dielectric_scatter refraction_index r_in hit_record rs = Inr (res, rs')"
  shows "\<exists>ri unit_direction sin_theta choose_reflect.
           (if front_face hit_record then py_div 1 refraction_index else Inr refraction_index)
             = Inr ri \<and>
           unit_vector (direction r_in) = Inr unit_direction \<and>
           math_sqrt (1 - min (dot (- unit_direction) (normal hit_record)) 1
                          * min (dot (- unit_direction) (normal hit_record)) 1) = Inr sin_theta \<and>
           (if ri * sin_theta > 1 then Inr (True, rs)
            else (case reflectance (min (dot (- unit_direction) (normal hit_record)) 1) ri of
                    Inl e \<Rightarrow> Inl e
                  | Inr prob \<Rightarrow>
                      (case random_py rs of
                         Inl e \<Rightarrow> Inl e
                       | Inr (s, rs'') \<Rightarrow> Inr (prob > s, rs''))))
             = Inr (choose_reflect, rs') \<and>
           res = Some \<lparr>attenuation = from_xyz 1 1 1,
                  scattered = \<lparr>origin = p_hit hit_record,
                    direction = (if choose_reflect
                                 then reflect unit_direction (normal hit_record)
                                 else refract unit_direction (normal hit_record) ri)\<rparr>\<rparr>"
proof -
  let ?ri = "if front_face hit_record then py_div 1 refraction_index else Inr refraction_index"
  obtain ri where ri: "?ri = Inr ri"
    using assms unfolding Dielectric_scatter_def Let_def by (cases ?ri) simp_all
  obtain ud where ud: "unit_vector (direction r_in) = Inr ud"
    using assms ri unfolding Dielectric_scatter_def Let_def
    by (cases "unit_vector (direction r_in)") simp_all
  let ?c = "min (dot (- ud) (normal hit_record)) 1"
  obtain st where st: "math_sqrt (1 - ?c * ?c) = Inr st"
    using assms ri ud unfolding Dielectric_scatter_def Let_def
    by (cases "math_sqrt (1 - ?c * ?c)") simp_all
  let ?ch = "if ri * st > 1 then Inr (True, rs)
            else (case reflectance ?c ri of
                    Inl e \<Rightarrow> Inl e
                  | Inr prob \<Rightarrow>
                      (case random_py rs of
                         Inl e \<Rightarrow> Inl e
                       | Inr (s, rs'') \<Rightarrow> Inr (prob > s, rs'')))"
  obtain ch rs2 where ch: "?ch = Inr (ch, rs2)"
    using assms ri ud st unfolding Dielectric_scatter_def Let_def
    by (cases ?ch) auto
  have "rs2 = rs'" and "res = Some \<lparr>attenuation = from_xyz 1 1 1,
                  scattered = \<lparr>origin = p_hit hit_record,
                    direction = (if ch then reflect ud (normal hit_record)
                                 else refract ud (normal hit_record) ri)\<rparr>\<rparr>"
    using assms ri ud st ch unfolding Dielectric_scatter_def Let_def by simp_all
  with ri ud st ch show ?thesis by blast
qed

section \<open>The sphere intersection (hittable.py)\<close>

lemma sphere_example:
  "hit (Sphere (from_xyz 0 0 (- 2)) 1 (Lambertian (from_xyz 1 1 1)))
       \<lparr>origin = from_xyz 0 0 0, direction = from_xyz 0 0 (- 1)\<rparr>
       \<lparr>min_v = Fin (1 / 1000), max_v = PosInf\<rparr>
   = Inr (Some \<lparr>p_hit = from_xyz 0 0 (- 1), normal = from_xyz 0 0 1, t_hit = 1,
                 material = Lambertian (from_xyz 1 1 1), front_face = True\<rparr>,
          \<lparr>min_v = Fin (1 / 1000), max_v = PosInf\<rparr>)"
  by (simp add: Sphere_hit_def Let_def truediv_def py_div_def at_t_def surrounds_def)

text \<open>
  Claim C4. Whenever \<open>Sphere.hit\<close> returns a hit record, the normal of the record and the
  direction of the ray have a dot product that is not positive; the front-face flag is the
  test \<open>dot(r.direction, outward_normal) < 0\<close> on the outward normal
  \<open>(point - center) / radius\<close>, and the normal of the record is the outward normal when the
  flag is set and its negation otherwise.
\<close>

theorem Sphere_hit_normal:
  assumes "hit (Sphere center radius mat) r t_range = Inr (Some record, t_range')"
  shows "dot (direction r) (normal record) \<le> 0 \<and> radius \<noteq> 0 \<and>
         front_face record = (dot (direction r) (mul_float (p_hit record - center) (1 / radius)) < 0) \<and>
         normal record = (if front_face record then mul_float (p_hit record - center) (1 / radius)
                          else - mul_float (p_hit record - center) (1 / radius))"
  using assms
  by (auto simp: Sphere_hit_def Let_def truediv_def py_div_def dot_uminus_right
           split: if_splits sum.splits option.splits)

theorem Sphere_hit_normal_witness:
  "hit (Sphere (from_xyz 0 0 (- 2)) 1 (Lambertian (from_xyz 1 1 1)))
       \<lparr>origin = from_xyz 0 0 0, direction = from_xyz 0 0 (- 1)\<rparr>
       \<lparr>min_v = Fin (1 / 1000), max_v = PosInf\<rparr>
   = Inr (Some \<lparr>p_hit = from_xyz 0 0 (- 1), normal = from_xyz 0 0 1, t_hit = 1,
                 material = Lambertian (from_xyz 1 1 1), front_face = True\<rparr>,
          \<lparr>min_v = Fin (1 / 1000), max_v = PosInf\<rparr>)
   \<and> dot (from_xyz 0 0 (- 1)) (from_xyz 0 0 1) \<le> 0"
  using Sphere_hit_normal [OF sphere_example] sphere_example by simp

section \<open>The materials (material.py)\<close>

lemma random_unit_vector_example:
  "random_unit_vector [1 / 2, 1 / 2, 0] = Inr (from_xyz 0 0 (- 1), [])"
  by (simp add: random_unit_vector.simps truediv_def)

lemma Lambertian_example:
  "scatter (Lambertian (from_xyz (1 / 2) (1 / 2) (1 / 2)))
     \<lparr>origin = from_xyz 0 0 0, direction = from_xyz 0 0 (- 1)\<rparr>
     \<lparr>p_hit = from_xyz 0 0 (- 1), normal = from_xyz 0 0 1, t_hit = 1,
      material = Lambertian (from_xyz (1 / 2) (1 / 2) (1 / 2)), front_face = True\<rparr>
     [1 / 2, 1 / 2, 0]
   = Inr (Some \<lparr>attenuation = from_xyz (1 / 2) (1 / 2) (1 / 2),
                scattered = \<lparr>origin = from_xyz 0 0 (- 1), direction = from_xyz 0 0 1\<rparr>\<rparr>, [])"
  by (simp add: Lambertian_scatter_def random_unit_vector_example near_zero_def Let_def)

text \<open>
  Claim C10. Whatever the material, the ray of a scatter record that \<open>scatter\<close> returns
  starts at the intersection point \<open>p\<close> of the hit record.
\<close>

theorem scatter_origin:
  assumes "scatter m r hit_record rs = Inr (Some sr, rs')"
  shows "origin (scattered sr) = p_hit hit_record"
proof (cases m)
  case (Lambertian albedo)
  with assms show ?thesis by (simp add: Lambertian_scatter_origin)
next
  case (Metal albedo fuzz)
  with assms Metal_scatter_result [of albedo fuzz r hit_record rs "Some sr" rs']
  show ?thesis by auto
next
  case (Dielectric idx)
  with assms Dielectric_scatter_steps [of idx r hit_record rs "Some sr" rs']
  show ?thesis by auto
qed

theorem scatter_origin_witness:
  "scatter (Lambertian (from_xyz (1 / 2) (1 / 2) (1 / 2)))
     \<lparr>origin = from_xyz 0 0 0, direction = from_xyz 0 0 (- 1)\<rparr>
     \<lparr>p_hit = from_xyz 0 0 (- 1), normal = from_xyz 0 0 1, t_hit = 1,
      material = Lambertian (from_xyz (1 / 2) (1 / 2) (1 / 2)), front_face = True\<rparr>
     [1 / 2, 1 / 2, 0]
   = Inr (Some \<lparr>attenuation = from_xyz (1 / 2) (1 / 2) (1 / 2),
                scattered = \<lparr>origin = from_xyz 0 0 (- 1), direction = from_xyz 0 0 1\<rparr>\<rparr>, [])
   \<and> origin \<lparr>origin = from_xyz 0 0 (- 1), direction = from_xyz 0 0 1\<rparr> = from_xyz 0 0 (- 1)"
  using scatter_origin [OF Lambertian_example] Lambertian_example by simp

text \<open>
  Claim C6. Whenever the relative index (\<open>1 / refraction_index\<close> on a front face,
  \<open>refraction_index\<close> otherwise), the unit direction and \<open>sin \<theta>\<close> can be computed and the
  relative index times \<open>sin \<theta>\<close> exceeds 1, \<open>Dielectric.scatter\<close> returns the record whose ray
  is the reflection of the unit direction, and the random source is left as it was:
  neither the reflectance test nor \<open>refract\<close> is reached. And every scatter record that
  \<open>Dielectric.scatter\<close> returns has the attenuation \<open>(1, 1, 1)\<close>.
\<close>

theorem Dielectric_scatter_reflects:
  "(\<forall>ri unit_direction sin_theta.
      (if front_face hit_record then py_div 1 refraction_index else Inr refraction_index)
        = Inr ri \<and>
      unit_vector (direction r_in) = Inr unit_direction \<and>
      math_sqrt (1 - min (dot (- unit_direction) (normal hit_record)) 1
                     * min (dot (- unit_direction) (normal hit_record)) 1) = Inr sin_theta \<and>
      ri * sin_theta > 1 \<longrightarrow>
      Dielectric_scatter refraction_index r_in hit_record rs =
        Inr (Some \<lparr>attenuation = from_xyz 1 1 1,
               scattered = \<lparr>origin = p_hit hit_record,
                             direction = reflect unit_direction (normal hit_record)\<rparr>\<rparr>, rs)) \<and>
   (\<forall>res rs'. Dielectric_scatter refraction_index r_in hit_record rs = Inr (res, rs') \<longrightarrow>
      (\<exists>sr. res = Some sr \<and> attenuation sr = from_xyz 1 1 1))"
proof (intro conjI allI impI)
  fix ri unit_direction sin_theta
  assume "(if front_face hit_record then py_div 1 refraction_index else Inr refraction_index)
        = Inr ri \<and>
      unit_vector (direction r_in) = Inr unit_direction \<and>
      math_sqrt (1 - min (dot (- unit_direction) (normal hit_record)) 1
                     * min (dot (- unit_direction) (normal hit_record)) 1) = Inr sin_theta \<and>
      ri * sin_theta > 1"
  then show "Dielectric_scatter refraction_index r_in hit_record rs =
        Inr (Some \<lparr>attenuation = from_xyz 1 1 1,
               scattered = \<lparr>origin = p_hit hit_record,
                             direction = reflect unit_direction (normal hit_record)\<rparr>\<rparr>, rs)"
    unfolding Dielectric_scatter_def Let_def by simp
next
  fix res rs'
  assume "Dielectric_scatter refraction_index r_in hit_record rs = Inr (res, rs')"
  from Dielectric_scatter_steps [OF this]
  show "\<exists>sr. res = Some sr \<and> attenuation sr = from_xyz 1 1 1"
    by auto
qed

theorem Dielectric_scatter_reflects_witness:
  "(if front_face \<lparr>p_hit = from_xyz 0 0 0, normal = from_xyz 0 1 0, t_hit = 1,
      material = Dielectric (3 / 2), front_face = False\<rparr> then py_div 1 (3 / 2)
    else Inr (3 / 2)) = Inr (3 / 2) \<and>
   unit_vector (from_xyz 1 0 0) = Inr (from_xyz 1 0 0) \<and>
   math_sqrt (1 - min (dot (- from_xyz 1 0 0) (from_xyz 0 1 0)) 1
                  * min (dot (- from_xyz 1 0 0) (from_xyz 0 1 0)) 1) = Inr 1 \<and>
   (3 / 2) * 1 > (1::real) \<and>
   Dielectric_scatter (3 / 2)
     \<lparr>origin = from_xyz (- 1) 0 0, direction = from_xyz 1 0 0\<rparr>
     \<lparr>p_hit = from_xyz 0 0 0, normal = from_xyz 0 1 0, t_hit = 1,
      material = Dielectric (3 / 2), front_face = False\<rparr>
     [1 / 4]
   = Inr (Some \<lparr>attenuation = from_xyz 1 1 1,
                scattered = \<lparr>origin = from_xyz 0 0 0,
                              direction = reflect (from_xyz 1 0 0) (from_xyz 0 1 0)\<rparr>\<rparr>,
          [1 / 4])"
proof -
  let ?h = "\<lparr>p_hit = from_xyz 0 0 0, normal = from_xyz 0 1 0, t_hit = 1,
      material = Dielectric (3 / 2), front_face = False\<rparr>"
  let ?r = "\<lparr>origin = from_xyz (- 1) 0 0, direction = from_xyz 1 0 0\<rparr>"
  have a: "(if front_face ?h then py_div 1 (3 / 2) else Inr (3 / 2)) = Inr (3 / 2 :: real)"
    by simp
  have b: "unit_vector (direction ?r) = Inr (from_xyz 1 0 0)"
    by (simp add: unit_vector_def length_vec_def truediv_def)
  have c: "math_sqrt (1 - min (dot (- from_xyz 1 0 0) (normal ?h)) 1
                  * min (dot (- from_xyz 1 0 0) (normal ?h)) 1) = Inr 1"
    by (simp add: math_sqrt_def)
  have d: "(3 / 2) * 1 > (1::real)" by simp
  from Dielectric_scatter_reflects [of ?h "3 / 2" ?r "[1 / 4]"] a b c d
  have "Dielectric_scatter (3 / 2) ?r ?h [1 / 4] =
        Inr (Some \<lparr>attenuation = from_xyz 1 1 1,
               scattered = \<lparr>origin = p_hit ?h,
                             direction = reflect (from_xyz 1 0 0) (normal ?h)\<rparr>\<rparr>, [1 / 4])"
    by blast
  with a b c d show ?thesis by simp
qed

lemma length_vec_zero_iff: "length_vec v = 0 \<longleftrightarrow> v = from_xyz 0 0 0"
proof (cases v)
  case (from_xyz a b c)
  have "a * a + b * b + c * c = 0 \<longleftrightarrow> a = 0 \<and> b = 0 \<and> c = 0"
    using sum_squares_eq_zero_iff [of a b] sum_squares_eq_zero_iff [of "sqrt (a * a + b * b)" c]
    by (auto simp: add_nonneg_eq_0_iff)
  with from_xyz show ?thesis by (simp add: length_vec_def)
qed

lemma unit_vector_zero: "unit_vector (from_xyz 0 0 0) = Inl ZeroDivisionError"
  by (simp add: unit_vector_def truediv_def length_vec_def)


lemma random_unit_vector_unfold:
  assumes "uniform_vec (- 1) 1 rs = Inr (p, rs')"
  shows "random_unit_vector rs =
           (if 1 / 10 ^ 160 < length_squared p \<and> length_squared p \<le> 1
            then (case truediv p (sqrt (length_squared p)) of
                    Inl e \<Rightarrow> Inl e
                  | Inr q \<Rightarrow> Inr (q, rs'))
            else random_unit_vector rs')"
  by (simp only: random_unit_vector.simps [of rs] assms sum.case prod.case Let_def)

lemma random_unit_vector_error: "random_unit_vector rs = Inl e \<Longrightarrow> e = OutOfSamples"
proof (induction rs rule: random_unit_vector.induct)
  case (1 rs)
  show ?case
  proof (cases "uniform_vec (- 1) 1 rs")
    case (Inl e')
    with "1.prems" have "e = e'" by (simp add: random_unit_vector.simps)
    with Inl show ?thesis by (auto elim: uniform_vec.elims)
  next
    case (Inr pr)
    obtain p rs' where pr: "pr = (p, rs')" by (cases pr)
    with Inr have u: "uniform_vec (- 1) 1 rs = Inr (p, rs')" by simp
    show ?thesis
    proof (cases "1 / 10 ^ 160 < length_squared p \<and> length_squared p \<le> 1")
      case True
      then have "0 < length_squared p"
        by (meson less_trans zero_less_divide_1_iff zero_less_numeral zero_less_power)
      then have "sqrt (length_squared p) \<noteq> 0" by simp
      then have "truediv p (sqrt (length_squared p))
                   = Inr (mul_float p (1 / sqrt (length_squared p)))"
        by (simp add: truediv_def)
      with "1.prems" True show ?thesis
        unfolding random_unit_vector_unfold [OF u] by (simp only: if_True sum.case) simp
    next
      case False
      with "1.prems" have "random_unit_vector rs' = Inl e"
        unfolding random_unit_vector_unfold [OF u] by (simp only: if_False)
      with "1.IH" [OF Inr pr [symmetric] refl False] show ?thesis by simp
    qed
  qed
qed

subsection \<open>The records that reach \<open>Metal.scatter\<close>\<close>












section \<open>The ray colour (camera.py)\<close>

text \<open>
  Claim C5. With depth 0, \<open>ray_color\<close> returns black for every ray and every scene; the
  scene is not queried and nothing is drawn from the random source.
\<close>

theorem ray_color_depth_zero:
  "ray_color ray world 0 rs = Inr (from_xyz 0 0 0, rs)"
  by simp

section \<open>The chunks of the parallel driver (camera.py)\<close>

lemma length_all_pixels: "length (all_pixels height width) = height * width"
  by (simp add: all_pixels_def length_concat comp_def sum_list_triv)

lemma all_pixels_product: "all_pixels height width = List.product [0..<height] [0..<width]"
  by (simp add: all_pixels_def product_concat_map)

lemma distinct_all_pixels: "distinct (all_pixels height width)"
  by (simp add: all_pixels_product distinct_product)

lemma set_all_pixels: "set (all_pixels height width) = {0..<height} \<times> {0..<width}"
  by (auto simp: all_pixels_def)

lemma concat_slices:
  "concat (map (\<lambda>k. take s (drop (k * s) xs)) [0..<m]) = take (m * s) xs"
proof (induction m)
  case 0
  show ?case by simp
next
  case (Suc m)
  have "take (m * s) xs @ take s (drop (m * s) xs) = take (m * s + s) xs"
    by (simp add: take_add)
  with Suc show ?case by (simp add: add.commute)
qed

lemma range_step_covers:
  fixes stop step :: nat
  assumes "0 < step"
  shows "stop \<le> ((stop + step - 1) div step) * step"
proof -
  have "(stop + step - 1) div step * step + (stop + step - 1) mod step = stop + step - 1"
    by simp
  moreover have "(stop + step - 1) mod step < step"
    using assms by simp
  ultimately show ?thesis by linarith
qed

lemma make_chunks_concat:
  assumes "1 \<le> length pixels div num_chunks"
  shows "\<exists>chunks. make_chunks pixels num_chunks = Inr chunks \<and> concat chunks = pixels"
proof -
  let ?s = "length pixels div num_chunks"
  let ?m = "(length pixels + ?s - 1) div ?s"
  from assms have n0: "num_chunks \<noteq> 0" by (cases "num_chunks = 0") simp_all
  from assms have s0: "0 < ?s" by simp
  have eq: "make_chunks pixels num_chunks
      = Inr (map (\<lambda>k. take ?s (drop (k * ?s) pixels)) [0..<?m])"
    using n0 s0 by (simp add: make_chunks_def range_step_def Let_def comp_def)
  have "concat (map (\<lambda>k. take ?s (drop (k * ?s) pixels)) [0..<?m]) = take (?m * ?s) pixels"
    by (rule concat_slices)
  also have "\<dots> = pixels"
    using range_step_covers [OF s0, of "length pixels"] by simp
  finally show ?thesis using eq by blast
qed

lemma distinct_concat_disjoint:
  "distinct (concat xss) \<Longrightarrow> a < b \<Longrightarrow> b < length xss \<Longrightarrow> set (xss ! a) \<inter> set (xss ! b) = {}"
proof (induction xss arbitrary: a b)
  case Nil
  then show ?case by simp
next
  case (Cons xs xss)
  show ?case
  proof (cases a)
    case 0
    with Cons.prems obtain b' where b': "b = Suc b'" "b' < length xss"
      by (cases b) auto
    then have "xss ! b' \<in> set xss" by simp
    then have "set (xss ! b') \<subseteq> set (concat xss)" by auto
    with Cons.prems(1) 0 b' show ?thesis by auto
  next
    case (Suc a')
    with Cons.prems obtain b' where b': "b = Suc b'" "a' < b'" "b' < length xss"
      by (cases b) auto
    with Cons.IH [of a' b'] Cons.prems(1) Suc show ?thesis by simp
  qed
qed

text \<open>
  Claim C3. When the derived chunk size \<open>len(pixels) // num_chunks\<close> is at least 1, the chunks
  that \<open>save_image_to_png\<close> builds are, concatenated, the list of all pixel coordinates, which
  holds each coordinate of the \<open>height \<times> width\<close> grid once: the chunks are pairwise disjoint,
  their union is the grid, and no coordinate occurs twice.
\<close>

theorem chunks_partition:
  assumes "1 \<le> (height * width) div num_chunks"
  shows "\<exists>chunks. make_chunks (all_pixels height width) num_chunks = Inr chunks \<and>
           concat chunks = all_pixels height width \<and>
           distinct (concat chunks) \<and>
           set (concat chunks) = {0..<height} \<times> {0..<width} \<and>
           (\<forall>a<length chunks. \<forall>b<length chunks. a \<noteq> b \<longrightarrow>
              set (chunks ! a) \<inter> set (chunks ! b) = {})"
proof -
  from assms have "1 \<le> length (all_pixels height width) div num_chunks"
    by (simp add: length_all_pixels)
  from make_chunks_concat [OF this] obtain chunks where
    c: "make_chunks (all_pixels height width) num_chunks = Inr chunks"
       "concat chunks = all_pixels height width"
    by blast
  have d: "distinct (concat chunks)"
    using c(2) distinct_all_pixels by simp
  have "set (chunks ! a) \<inter> set (chunks ! b) = {}"
    if "a < length chunks" "b < length chunks" "a \<noteq> b" for a b
  proof (cases "a < b")
    case True
    with d that show ?thesis by (simp add: distinct_concat_disjoint)
  next
    case False
    with that have "b < a" by simp
    with d that have "set (chunks ! b) \<inter> set (chunks ! a) = {}"
      by (simp add: distinct_concat_disjoint)
    then show ?thesis by blast
  qed
  moreover have "set (concat chunks) = {0..<height} \<times> {0..<width}"
    unfolding c(2) by (rule set_all_pixels)
  ultimately show ?thesis
    using c d by blast
qed

lemma chunks_example:
  "make_chunks (all_pixels 2 2) 3 = Inr [[(0, 0)], [(0, 1)], [(1, 0)], [(1, 1)]]"
  by code_simp

theorem chunks_partition_witness:
  "(1::nat) \<le> (2 * 2) div 3 \<and>
   make_chunks (all_pixels 2 2) 3 = Inr [[(0, 0)], [(0, 1)], [(1, 0)], [(1, 1)]] \<and>
   concat [[(0, 0)], [(0, 1)], [(1, 0)], [(1, 1)]] = all_pixels 2 2"
  using chunks_partition [of 2 2 3] chunks_example by simp

section \<open>Gamma correction and clamping (color.py)\<close>

lemma linear_to_gamma_nonneg: "0 \<le> linear_to_gamma x"
  by (simp add: linear_to_gamma_def)

lemma channel_value:
  "int_of_float (times_256 (clamp \<lparr>min_v = Fin 0, max_v = Fin (999 / 1000)\<rparr> (linear_to_gamma x)))
     = Inr \<lfloor>256 * min (linear_to_gamma x) (999 / 1000)\<rfloor>"
  using linear_to_gamma_nonneg [of x]
  by (auto simp: clamp_def py_int_def min_def)

lemma make_color_array_value:
  "make_color_array color =
     Inr [\<lfloor>256 * min (linear_to_gamma (red color)) (999 / 1000)\<rfloor>,
          \<lfloor>256 * min (linear_to_gamma (green color)) (999 / 1000)\<rfloor>,
          \<lfloor>256 * min (linear_to_gamma (blue color)) (999 / 1000)\<rfloor>]"
  by (simp add: make_color_array_def Let_def channel_value)

lemma channel_low: "x \<le> 0 \<Longrightarrow> \<lfloor>256 * min (linear_to_gamma x) (999 / 1000)\<rfloor> = 0"
  by (simp add: linear_to_gamma_def)

lemma channel_high:
  assumes "(999 / 1000)\<^sup>2 \<le> x"
  shows "\<lfloor>256 * min (linear_to_gamma x) (999 / 1000)\<rfloor> = 255"
proof -
  have pos: "0 < x"
    using assms by (simp add: power2_eq_square)
  have "sqrt ((999 / 1000)\<^sup>2) \<le> sqrt x"
    using assms by (simp only: real_sqrt_le_iff)
  then have "999 / 1000 \<le> sqrt x" by simp
  then have "min (linear_to_gamma x) (999 / 1000) = 999 / 1000"
    using pos by (simp add: linear_to_gamma_def)
  then show ?thesis by simp
qed

text \<open>
  Claim C9. \<open>make_color_array\<close> always returns three channel values, and for each channel:
  the linear value 0 gives 0, every linear value of at least \<open>0.999\<^sup>2\<close> gives 255, and every
  negative linear value gives 0.
\<close>

theorem gamma_clamp_channels:
  "\<exists>ir ig ib. make_color_array color = Inr [ir, ig, ib] \<and>
     (red color = 0 \<longrightarrow> ir = 0) \<and> ((999 / 1000)\<^sup>2 \<le> red color \<longrightarrow> ir = 255) \<and>
     (red color < 0 \<longrightarrow> ir = 0) \<and>
     (green color = 0 \<longrightarrow> ig = 0) \<and> ((999 / 1000)\<^sup>2 \<le> green color \<longrightarrow> ig = 255) \<and>
     (green color < 0 \<longrightarrow> ig = 0) \<and>
     (blue color = 0 \<longrightarrow> ib = 0) \<and> ((999 / 1000)\<^sup>2 \<le> blue color \<longrightarrow> ib = 255) \<and>
     (blue color < 0 \<longrightarrow> ib = 0)"
  by (simp add: make_color_array_value channel_low channel_high)

theorem gamma_clamp_channels_witness:
  "make_color_array (from_xyz 0 1 (- 1)) = Inr [0, 255, 0]"
  using gamma_clamp_channels [of "from_xyz 0 1 (- 1)"]
  by (auto simp: red_def green_def blue_def power2_eq_square)

section \<open>Camera construction (camera.py)\<close>

lemma minus_self_vec: "(v::Vec3) - v = from_xyz 0 0 0"
  by (cases v) simp

lemma truediv_error: "truediv v k = Inl e \<Longrightarrow> e = ZeroDivisionError"
  by (simp add: truediv_def split: if_splits)

lemma unit_vector_error: "unit_vector v = Inl e \<Longrightarrow> e = ZeroDivisionError"
  unfolding unit_vector_def by (rule truediv_error)

lemma py_div_error: "py_div a b = Inl e \<Longrightarrow> e = ZeroDivisionError"
  by (simp add: py_div_def split: if_splits)

lemma Camera_init_error:
  assumes "Camera_init aspect_ratio width spp depth vfov lookfrom lookat vup defocus focus_dist
             = Inl e"
  shows "e = ZeroDivisionError"
  using assms
  by (auto simp: Camera_init_def Let_def
           dest: truediv_error unit_vector_error py_div_error
           split: sum.splits)

text \<open>
  Claim C8, as the code has it. \<open>Camera.__init__\<close> validates nothing. The three cameras
  below, one whose \<open>lookfrom\<close> equals \<open>lookat\<close>, one whose up vector is collinear with the
  view direction (on an axis, where the doubles are exact) and one whose aspect ratio is
  zero, all end in the same \<open>ZeroDivisionError\<close> of the interpreter, raised inside
  \<open>unit_vector\<close> or by the division: the error names no parameter and is no configuration
  error of the camera.
\<close>

theorem Camera_init_same_error:
  "Camera_init (16 / 9) 400 10 10 90 (Some (from_xyz 0 0 0)) (Some (from_xyz 0 0 0))
     (Some (from_xyz 0 1 0)) 0 10 = Inl ZeroDivisionError \<and>
   Camera_init (16 / 9) 400 10 10 90 (Some (from_xyz 0 0 0)) (Some (from_xyz 0 (- 1) 0))
     (Some (from_xyz 0 1 0)) 0 10 = Inl ZeroDivisionError \<and>
   Camera_init 0 400 10 10 90 (Some (from_xyz 0 0 0)) (Some (from_xyz 0 0 (- 1)))
     (Some (from_xyz 0 1 0)) 0 10 = Inl ZeroDivisionError"
  by (simp add: Camera_init_def py_div_def Let_def unit_vector_def truediv_def length_vec_def
        cross_def)

text \<open>
  Claim C8, amended. Whatever its parameters, degenerate or not, an exception that
  \<open>Camera.__init__\<close> raises is never a configuration error, the \<open>ValueError\<close> with a message
  by which \<open>Sphere\<close> and \<open>Metal\<close> reject their parameters. With \<open>lookfrom\<close> equal to
  \<open>lookat\<close>, each passed or left to its default, the constructor raises instead of
  returning a camera, so before any rendering. Nothing is stated on an up vector collinear
  with the view direction beyond the first sentence: the code has no test for it, and
  whether the normalisation of the cross product raises there depends on rounding.
\<close>

theorem Camera_init_no_validation:
  "(\<forall>e. Camera_init aspect_ratio width spp depth vfov lookfrom lookat vup defocus focus_dist
            = Inl e \<longrightarrow> (\<forall>msg. e \<noteq> ValueError msg)) \<and>
   ((case lookfrom of Some v \<Rightarrow> v | None \<Rightarrow> from_xyz 0 0 0)
       = (case lookat of Some v \<Rightarrow> v | None \<Rightarrow> from_xyz 0 0 (- 1)) \<longrightarrow>
    (\<exists>e. Camera_init aspect_ratio width spp depth vfov lookfrom lookat vup defocus focus_dist
            = Inl e))"
proof (intro conjI allI impI)
  fix e msg
  assume "Camera_init aspect_ratio width spp depth vfov lookfrom lookat vup defocus focus_dist
            = Inl e"
  then have "e = ZeroDivisionError" by (rule Camera_init_error)
  then show "e \<noteq> ValueError msg" by simp
next
  let ?from = "case lookfrom of Some v \<Rightarrow> v | None \<Rightarrow> from_xyz 0 0 0"
  let ?at = "case lookat of Some v \<Rightarrow> v | None \<Rightarrow> from_xyz 0 0 (- 1)"
  assume same: "?from = ?at"
  have "Camera_init aspect_ratio width spp depth vfov lookfrom lookat vup defocus focus_dist
          = Inl ZeroDivisionError"
  proof (cases "aspect_ratio = 0")
    case True
    then show ?thesis by (simp add: Camera_init_def py_div_def)
  next
    case False
    from same have "unit_vector (?from - ?at) = Inl ZeroDivisionError"
      by (simp only: minus_self_vec unit_vector_zero)
    with False show ?thesis by (simp add: Camera_init_def py_div_def Let_def)
  qed
  then show "\<exists>e. Camera_init aspect_ratio width spp depth vfov lookfrom lookat vup defocus
                   focus_dist = Inl e"
    by simp
qed

theorem Camera_init_no_validation_witness:
  "(case Some (from_xyz 0 0 (- 1)) of Some v \<Rightarrow> v | None \<Rightarrow> from_xyz 0 0 0)
     = (case (None :: Vec3 option) of Some v \<Rightarrow> v | None \<Rightarrow> from_xyz 0 0 (- 1)) \<and>
   Camera_init (16 / 9) 400 10 10 90 (Some (from_xyz 0 0 (- 1))) None None 0 10
     = Inl ZeroDivisionError \<and>
   (\<forall>msg. ZeroDivisionError \<noteq> ValueError msg) \<and>
   (\<exists>e. Camera_init (16 / 9) 400 10 10 90 (Some (from_xyz 0 0 (- 1))) None None 0 10 = Inl e)"
proof -
  have same: "(case Some (from_xyz 0 0 (- 1)) of Some v \<Rightarrow> v | None \<Rightarrow> from_xyz 0 0 0)
     = (case (None :: Vec3 option) of Some v \<Rightarrow> v | None \<Rightarrow> from_xyz 0 0 (- 1))"
    by simp
  have val: "Camera_init (16 / 9) 400 10 10 90 (Some (from_xyz 0 0 (- 1))) None None 0 10
               = Inl ZeroDivisionError"
    by (simp add: Camera_init_def py_div_def Let_def unit_vector_def truediv_def length_vec_def)
  note both = Camera_init_no_validation
                [of "16 / 9" 400 10 10 90 "Some (from_xyz 0 0 (- 1))" None None 0 10]
  from both have "\<forall>e. Camera_init (16 / 9) 400 10 10 90 (Some (from_xyz 0 0 (- 1))) None None 0 10 = Inl e
                    \<longrightarrow> (\<forall>msg. e \<noteq> ValueError msg)"
    by (rule conjunct1)
  then have "Camera_init (16 / 9) 400 10 10 90 (Some (from_xyz 0 0 (- 1))) None None 0 10 = Inl ZeroDivisionError
               \<longrightarrow> (\<forall>msg. ZeroDivisionError \<noteq> ValueError msg)"
    by (rule spec)
  then have no_config: "\<forall>msg. ZeroDivisionError \<noteq> ValueError msg"
    using val by (rule mp)
  from both have "(case Some (from_xyz 0 0 (- 1)) of Some v \<Rightarrow> v | None \<Rightarrow> from_xyz 0 0 0)
     = (case (None :: Vec3 option) of Some v \<Rightarrow> v | None \<Rightarrow> from_xyz 0 0 (- 1))
      \<longrightarrow> (\<exists>e. Camera_init (16 / 9) 400 10 10 90 (Some (from_xyz 0 0 (- 1))) None None 0 10 = Inl e)"
    by (rule conjunct2)
  then have raises: "\<exists>e. Camera_init (16 / 9) 400 10 10 90 (Some (from_xyz 0 0 (- 1))) None None 0 10 = Inl e"
    using same by (rule mp)
  show ?thesis
    by (rule conjI [OF same conjI [OF val conjI [OF no_config raises]]])
qed

section \<open>The scene query (hittable.py)\<close>

lemma below_simps [simp]:
  "below b None = None"
  "below b (Some h) = (if Fin (t_hit h) < b then Some h else None)"
  by (simp_all add: below_def)

lemma roots_ordered:
  fixes a h sd :: real
  assumes "0 \<le> sd" "0 \<le> a"
  shows "(h - sd) / a \<le> (h + sd) / a"
  using assms by (intro divide_right_mono) simp_all

lemma length_squared_nonneg: "0 \<le> length_squared v"
  by (cases v) simp

lemma Sphere_hit_props:
  assumes "Sphere_hit center radius mat r t_range = Inr (res, t_range')"
  shows "t_range' = t_range \<and>
         (\<forall>h. res = Some h \<longrightarrow> surrounds t_range (t_hit h)) \<and>
         (\<forall>b. b \<le> max_v t_range \<longrightarrow>
            Sphere_hit center radius mat r (t_range\<lparr>max_v := b\<rparr>)
              = Inr (below b res, t_range\<lparr>max_v := b\<rparr>))"
proof -
  define a where "a = length_squared (direction r)"
  define h where "h = dot (direction r) (center - origin r)"
  define disc where
    "disc = h * h - a * (length_squared (center - origin r) - radius * radius)"
  define r1 where "r1 = (h - sqrt disc) / a"
  define r2 where "r2 = (h + sqrt disc) / a"
  define mk where "mk = (\<lambda>root.
     \<lparr>p_hit = at_t r root,
      normal = (if dot (direction r) (mul_float (at_t r root - center) (1 / radius)) < 0
                then mul_float (at_t r root - center) (1 / radius)
                else - mul_float (at_t r root - center) (1 / radius)),
      t_hit = root, material = mat,
      front_face = (dot (direction r) (mul_float (at_t r root - center) (1 / radius)) < 0)\<rparr>)"
  have t_mk [simp]: "t_hit (mk root) = root" for root
    by (simp add: mk_def)
  have unfold: "Sphere_hit center radius mat r J =
      (if disc < 0 then Inr (None, J)
       else if a = 0 then Inl ZeroDivisionError
       else if surrounds J r1 then (if radius = 0 then Inl ZeroDivisionError
                                    else Inr (Some (mk r1), J))
       else if surrounds J r2 then (if radius = 0 then Inl ZeroDivisionError
                                    else Inr (Some (mk r2), J))
       else Inr (None, J))" for J
    by (simp add: Sphere_hit_def Let_def py_div_def truediv_def a_def h_def disc_def r1_def
          r2_def mk_def)
  have sur: "surrounds (t_range\<lparr>max_v := b\<rparr>) v \<longleftrightarrow> min_v t_range < Fin v \<and> Fin v < b" for b v
    by (simp add: surrounds_def)
  show ?thesis
  proof (cases "disc < 0")
    case True
    with assms show ?thesis by (simp add: unfold)
  next
    case False
    with assms have a0: "a \<noteq> 0" by (auto simp: unfold split: if_splits)
    have "0 \<le> a" by (simp add: a_def length_squared_nonneg)
    with False have le: "r1 \<le> r2"
      unfolding r1_def r2_def by (intro roots_ordered) simp_all
    show ?thesis
    proof (cases "surrounds t_range r1")
      case s1: True
      with assms False a0 have rad: "radius \<noteq> 0" and res: "res = Some (mk r1)"
        and same: "t_range' = t_range"
        by (auto simp: unfold split: if_splits)
      have "Sphere_hit center radius mat r (t_range\<lparr>max_v := b\<rparr>)
              = Inr (below b res, t_range\<lparr>max_v := b\<rparr>)" if "b \<le> max_v t_range" for b
      proof (cases "Fin r1 < b")
        case True
        with s1 have "surrounds (t_range\<lparr>max_v := b\<rparr>) r1"
          by (simp add: sur surrounds_def)
        with False a0 rad res True show ?thesis by (simp add: unfold)
      next
        case nb: False
        then have "\<not> Fin r2 < b"
          using le by (cases b) auto
        with nb have "\<not> surrounds (t_range\<lparr>max_v := b\<rparr>) r1"
          "\<not> surrounds (t_range\<lparr>max_v := b\<rparr>) r2"
          by (simp_all add: sur)
        with False a0 res nb show ?thesis by (simp add: unfold)
      qed
      with res same s1 show ?thesis by simp
    next
      case n1: False
      show ?thesis
      proof (cases "surrounds t_range r2")
        case s2: True
        with assms False a0 n1 have rad: "radius \<noteq> 0" and res: "res = Some (mk r2)"
          and same: "t_range' = t_range"
          by (auto simp: unfold split: if_splits)
        have "Sphere_hit center radius mat r (t_range\<lparr>max_v := b\<rparr>)
                = Inr (below b res, t_range\<lparr>max_v := b\<rparr>)" if "b \<le> max_v t_range" for b
        proof -
          have "\<not> surrounds (t_range\<lparr>max_v := b\<rparr>) r1"
            using n1 that by (auto simp: sur surrounds_def)
          moreover have "surrounds (t_range\<lparr>max_v := b\<rparr>) r2 \<longleftrightarrow> Fin r2 < b"
            using s2 by (simp add: sur surrounds_def)
          ultimately show ?thesis
            using False a0 rad res by (simp add: unfold)
        qed
        with res same s2 show ?thesis by simp
      next
        case n2: False
        with assms False a0 n1 have res: "res = None" and same: "t_range' = t_range"
          by (auto simp: unfold split: if_splits)
        have "Sphere_hit center radius mat r (t_range\<lparr>max_v := b\<rparr>)
                = Inr (below b res, t_range\<lparr>max_v := b\<rparr>)" if "b \<le> max_v t_range" for b
        proof -
          have "\<not> surrounds (t_range\<lparr>max_v := b\<rparr>) r1"
            "\<not> surrounds (t_range\<lparr>max_v := b\<rparr>) r2"
            using n1 n2 that by (auto simp: sur surrounds_def)
          then show ?thesis
            using False a0 res by (simp add: unfold)
        qed
        with res same show ?thesis by simp
      qed
    qed
  qed
qed


lemma Fin_less_trans: "a < b \<Longrightarrow> Fin b < m \<Longrightarrow> Fin a < m"
  by (cases m) auto

lemma World_loop_narrow:
  assumes elems: "\<And>ob J x J'. ob \<in> set objs \<Longrightarrow> hit ob r J = Inr (x, J') \<Longrightarrow>
            J' = J \<and> (\<forall>h. x = Some h \<longrightarrow> surrounds J (t_hit h)) \<and>
            (\<forall>b. b \<le> max_v J \<longrightarrow> hit ob r (J\<lparr>max_v := b\<rparr>) = Inr (below b x, J\<lparr>max_v := b\<rparr>))"
    and run: "World_loop objs r cur c = Inr (res, cur')"
    and inv: "\<And>h. c = Some h \<Longrightarrow> max_v cur = Fin (t_hit h)"
  shows "cur' = cur\<lparr>max_v := max_v cur'\<rparr> \<and> max_v cur' \<le> max_v cur \<and>
         (\<forall>h. res = Some h \<longrightarrow>
            max_v cur' = Fin (t_hit h) \<and> (c = Some h \<or> surrounds cur (t_hit h))) \<and>
         (\<forall>b. World_loop objs r (cur\<lparr>max_v := min (max_v cur) b\<rparr>) (below b c)
                = Inr (below b res, cur'\<lparr>max_v := min (max_v cur') b\<rparr>))"
  using assms
proof (induction objs arbitrary: cur c res cur')
  case Nil
  then show ?case by auto
next
  case (Cons ob objs)
  from Cons.prems(2) obtain x cur1 where h1: "hit ob r cur = Inr (x, cur1)"
    by (cases "hit ob r cur") auto
  from Cons.prems(1) [OF _ h1] have same: "cur1 = cur"
    and sur: "\<And>h. x = Some h \<Longrightarrow> surrounds cur (t_hit h)"
    and nar: "\<And>b. b \<le> max_v cur \<Longrightarrow>
                hit ob r (cur\<lparr>max_v := b\<rparr>) = Inr (below b x, cur\<lparr>max_v := b\<rparr>)"
    by auto
  have elems': "J' = J \<and> (\<forall>h. x = Some h \<longrightarrow> surrounds J (t_hit h)) \<and>
            (\<forall>b. b \<le> max_v J \<longrightarrow> hit ob' r (J\<lparr>max_v := b\<rparr>) = Inr (below b x, J\<lparr>max_v := b\<rparr>))"
    if "ob' \<in> set objs" "hit ob' r J = Inr (x, J')" for ob' J x J'
    using Cons.prems(1) [of ob' J x J'] that by simp
  show ?case
  proof (cases x)
    case None
    with Cons.prems(2) h1 same have run': "World_loop objs r cur c = Inr (res, cur')"
      by simp
    note IH = Cons.IH [OF elems' run' Cons.prems(3)]
    have "World_loop (ob # objs) r (cur\<lparr>max_v := min (max_v cur) b\<rparr>) (below b c)
            = Inr (below b res, cur'\<lparr>max_v := min (max_v cur') b\<rparr>)" for b
    proof -
      have "hit ob r (cur\<lparr>max_v := min (max_v cur) b\<rparr>)
              = Inr (None, cur\<lparr>max_v := min (max_v cur) b\<rparr>)"
        using nar [of "min (max_v cur) b"] None by simp
      with IH show ?thesis by simp
    qed
    with IH show ?thesis by blast
  next
    case (Some h1')
    let ?cur2 = "cur\<lparr>max_v := Fin (t_hit h1')\<rparr>"
    from sur [OF Some] have s1: "min_v cur < Fin (t_hit h1')" "Fin (t_hit h1') < max_v cur"
      by (simp_all add: surrounds_def)
    from Cons.prems(2) h1 same Some
    have run': "World_loop objs r ?cur2 (Some h1') = Inr (res, cur')"
      by simp
    have inv2: "\<And>h. Some h1' = Some h \<Longrightarrow> max_v ?cur2 = Fin (t_hit h)" by simp
    note IH = Cons.IH [OF elems' run' inv2]
    from IH have a1: "cur' = cur\<lparr>max_v := max_v cur'\<rparr>"
      by (metis Interval.surjective Interval.update_convs(2) Interval.select_convs)
    from IH s1 have a2: "max_v cur' \<le> max_v cur" by auto
    have a3: "max_v cur' = Fin (t_hit h) \<and> (c = Some h \<or> surrounds cur (t_hit h))"
      if "res = Some h" for h
    proof -
      from IH that have m: "max_v cur' = Fin (t_hit h)"
        and d: "h1' = h \<or> surrounds ?cur2 (t_hit h)" by auto
      from d s1 have "surrounds cur (t_hit h)"
        by (auto simp: surrounds_def intro: Fin_less_trans)
      with m show ?thesis by simp
    qed
    have a4: "World_loop (ob # objs) r (cur\<lparr>max_v := min (max_v cur) b\<rparr>) (below b c)
            = Inr (below b res, cur'\<lparr>max_v := min (max_v cur') b\<rparr>)" for b
    proof (cases "Fin (t_hit h1') < b")
      case True
      with s1 have "Fin (t_hit h1') < min (max_v cur) b" by (simp add: min_less_iff_conj)
      then have "hit ob r (cur\<lparr>max_v := min (max_v cur) b\<rparr>)
              = Inr (Some h1', cur\<lparr>max_v := min (max_v cur) b\<rparr>)"
        using nar [of "min (max_v cur) b"] Some by simp
      moreover have "World_loop objs r ?cur2 (Some h1')
              = Inr (below b res, cur'\<lparr>max_v := min (max_v cur') b\<rparr>)"
      proof -
        from IH have "World_loop objs r (?cur2\<lparr>max_v := min (max_v ?cur2) b\<rparr>)
                        (below b (Some h1'))
                      = Inr (below b res, cur'\<lparr>max_v := min (max_v cur') b\<rparr>)"
          by blast
        moreover from True have "min (max_v ?cur2) b = Fin (t_hit h1')"
          by (simp add: min.absorb1 less_imp_le)
        ultimately show ?thesis using True by simp
      qed
      ultimately show ?thesis by simp
    next
      case False
      then have b_le: "b \<le> Fin (t_hit h1')" by simp
      with s1 have bm: "b \<le> max_v cur" by (meson less_imp_le order_trans)
      then have mb: "min (max_v cur) b = b" by (simp add: min.absorb2)
      have hn: "hit ob r (cur\<lparr>max_v := b\<rparr>) = Inr (None, cur\<lparr>max_v := b\<rparr>)"
        using nar [OF bm] Some False by simp
      have bc: "below b c = None"
      proof (cases c)
        case None
        then show ?thesis by simp
      next
        case (Some h0)
        with Cons.prems(3) have "max_v cur = Fin (t_hit h0)" by simp
        with bm have "\<not> Fin (t_hit h0) < b" by (simp add: not_less)
        with Some show ?thesis by simp
      qed
      have "World_loop objs r (cur\<lparr>max_v := b\<rparr>) None
              = Inr (below b res, cur'\<lparr>max_v := min (max_v cur') b\<rparr>)"
      proof -
        from IH have "World_loop objs r (?cur2\<lparr>max_v := min (max_v ?cur2) b\<rparr>)
                        (below b (Some h1'))
                      = Inr (below b res, cur'\<lparr>max_v := min (max_v cur') b\<rparr>)"
          by blast
        moreover from b_le have "min (max_v ?cur2) b = b"
          by (simp add: min.absorb2)
        ultimately show ?thesis using False by simp
      qed
      with hn bc mb show ?thesis by simp
    qed
    from a1 a2 a3 a4 show ?thesis by blast
  qed
qed

lemma hit_props:
  "hit ob r J = Inr (res, J') \<Longrightarrow>
     J' = J \<and> (\<forall>h. res = Some h \<longrightarrow> surrounds J (t_hit h)) \<and>
     (\<forall>b. b \<le> max_v J \<longrightarrow> hit ob r (J\<lparr>max_v := b\<rparr>) = Inr (below b res, J\<lparr>max_v := b\<rparr>))"
proof (induction ob arbitrary: J res J')
  case (Sphere center radius mat)
  then show ?case using Sphere_hit_props [of center radius mat r J res J'] by simp
next
  case (World objs)
  from World.prems obtain cur' where
    run: "World_loop objs r J None = Inr (res, cur')" and same: "J' = J"
    by (auto simp: Let_def split: sum.splits)
  have inv: "\<And>h. (None :: HitRecord option) = Some h \<Longrightarrow> max_v J = Fin (t_hit h)" by simp
  note L = World_loop_narrow [OF World.IH run inv]
  have "hit (World objs) r (J\<lparr>max_v := b\<rparr>) = Inr (below b res, J\<lparr>max_v := b\<rparr>)"
    if "b \<le> max_v J" for b
  proof -
    from that have "min (max_v J) b = b" by (simp add: min.absorb2)
    moreover from L have "World_loop objs r (J\<lparr>max_v := min (max_v J) b\<rparr>) (below b None)
                  = Inr (below b res, cur'\<lparr>max_v := min (max_v cur') b\<rparr>)"
      by blast
    ultimately have "World_loop objs r (J\<lparr>max_v := b\<rparr>) None
                  = Inr (below b res, cur'\<lparr>max_v := min (max_v cur') b\<rparr>)"
      by simp
    then show ?thesis by (simp add: Let_def)
  qed
  with L same show ?case by auto
qed


lemma hit_same_interval: "hit ob r J = Inr (res, J') \<Longrightarrow> J' = J"
  using hit_props [of ob r J res J'] by simp

lemma World_loop_closest:
  assumes ret: "\<And>ob. ob \<in> set objs \<Longrightarrow> \<exists>x. hit ob r I = Inr x"
    and inv: "\<And>h0. c = Some h0 \<Longrightarrow> cur = I\<lparr>max_v := Fin (t_hit h0)\<rparr> \<and> surrounds I (t_hit h0)"
    and inv0: "c = None \<Longrightarrow> cur = I"
  shows "\<exists>res cur'. World_loop objs r cur c = Inr (res, cur') \<and>
    (res = None \<longrightarrow> c = None \<and> (\<forall>ob\<in>set objs. hit ob r I = Inr (None, I))) \<and>
    (\<forall>h. res = Some h \<longrightarrow>
         surrounds I (t_hit h) \<and>
         (c = Some h \<or> (\<exists>ob\<in>set objs. hit ob r I = Inr (Some h, I))) \<and>
         (\<forall>h0. c = Some h0 \<longrightarrow> t_hit h \<le> t_hit h0) \<and>
         (\<forall>ob\<in>set objs. \<forall>h'. hit ob r I = Inr (Some h', I) \<longrightarrow> t_hit h \<le> t_hit h'))"
  using assms
proof (induction objs arbitrary: cur c)
  case Nil
  then show ?case by auto
next
  case (Cons ob objs)
  from Cons.prems(1) [of ob] obtain x J' where "hit ob r I = Inr (x, J')" by auto
  with hit_same_interval have hx: "hit ob r I = Inr (x, I)" by blast
  note px = hit_props [OF hx]
  define y where "y = (case c of None \<Rightarrow> x | Some h0 \<Rightarrow> below (Fin (t_hit h0)) x)"
  have hy: "hit ob r cur = Inr (y, cur)"
  proof (cases c)
    case None
    with Cons.prems(3) hx show ?thesis by (simp add: y_def)
  next
    case (Some h0)
    with Cons.prems(2) have c0: "cur = I\<lparr>max_v := Fin (t_hit h0)\<rparr>"
      and "Fin (t_hit h0) < max_v I"
      by (simp_all add: surrounds_def)
    then have "Fin (t_hit h0) \<le> max_v I" by simp
    with px have "hit ob r (I\<lparr>max_v := Fin (t_hit h0)\<rparr>)
                    = Inr (below (Fin (t_hit h0)) x, I\<lparr>max_v := Fin (t_hit h0)\<rparr>)"
      by blast
    with c0 Some show ?thesis by (simp add: y_def)
  qed
  have ret': "\<And>ob'. ob' \<in> set objs \<Longrightarrow> \<exists>x. hit ob' r I = Inr x"
    using Cons.prems(1) by simp
  show ?case
  proof (cases y)
    case None
    with hy have step: "World_loop (ob # objs) r cur c = World_loop objs r cur c" by simp
    from Cons.IH [OF ret' Cons.prems(2) Cons.prems(3)] obtain res cur' where
      run: "World_loop objs r cur c = Inr (res, cur')"
      and postN: "res = None \<Longrightarrow> c = None \<and> (\<forall>ob\<in>set objs. hit ob r I = Inr (None, I))"
      and postS: "\<And>h. res = Some h \<Longrightarrow>
           surrounds I (t_hit h) \<and>
           (c = Some h \<or> (\<exists>ob\<in>set objs. hit ob r I = Inr (Some h, I))) \<and>
           (\<forall>h0. c = Some h0 \<longrightarrow> t_hit h \<le> t_hit h0) \<and>
           (\<forall>ob\<in>set objs. \<forall>h'. hit ob r I = Inr (Some h', I) \<longrightarrow> t_hit h \<le> t_hit h')"
      by blast
    have N: "c = None \<and> (\<forall>ob'\<in>set (ob # objs). hit ob' r I = Inr (None, I))" if "res = None"
    proof -
      from postN [OF that] have cn: "c = None"
        and rest: "\<forall>ob\<in>set objs. hit ob r I = Inr (None, I)" by simp_all
      from cn None have "x = None" by (simp add: y_def)
      with hx cn rest show ?thesis by simp
    qed
    have S: "surrounds I (t_hit h) \<and>
           (c = Some h \<or> (\<exists>ob'\<in>set (ob # objs). hit ob' r I = Inr (Some h, I))) \<and>
           (\<forall>h0. c = Some h0 \<longrightarrow> t_hit h \<le> t_hit h0) \<and>
           (\<forall>ob'\<in>set (ob # objs). \<forall>h'. hit ob' r I = Inr (Some h', I) \<longrightarrow> t_hit h \<le> t_hit h')"
      if "res = Some h" for h
    proof -
      note p = postS [OF that]
      have "t_hit h \<le> t_hit h'" if "hit ob r I = Inr (Some h', I)" for h'
      proof -
        from that hx have xs: "x = Some h'" by simp
        show ?thesis
        proof (cases c)
          case cn: None
          with xs \<open>y = None\<close> show ?thesis by (simp add: y_def)
        next
          case (Some h0)
          with xs \<open>y = None\<close> have "\<not> t_hit h' < t_hit h0"
            by (simp add: y_def split: if_splits)
          moreover from p Some have "t_hit h \<le> t_hit h0" by simp
          ultimately show ?thesis by simp
        qed
      qed
      with p show ?thesis by auto
    qed
    from step run N S show ?thesis by simp
  next
    case (Some h1)
    have xs: "x = Some h1"
    proof (cases c)
      case None
      with Some show ?thesis by (simp add: y_def)
    next
      case c0: (Some h0)
      with Some show ?thesis by (cases x) (simp_all add: y_def split: if_splits)
    qed
    from px xs have s1: "surrounds I (t_hit h1)" by simp
    have lt: "t_hit h1 < t_hit h0" if "c = Some h0" for h0
      using Some xs that by (simp add: y_def split: if_splits)
    have cur2: "cur\<lparr>max_v := Fin (t_hit h1)\<rparr> = I\<lparr>max_v := Fin (t_hit h1)\<rparr>"
    proof (cases c)
      case None
      with Cons.prems(3) show ?thesis by simp
    next
      case c0: (Some h0)
      with Cons.prems(2) show ?thesis by simp
    qed
    from hy Some cur2
    have step: "World_loop (ob # objs) r cur c
                  = World_loop objs r (I\<lparr>max_v := Fin (t_hit h1)\<rparr>) (Some h1)"
      by simp
    have inv2: "\<And>h0. Some h1 = Some h0 \<Longrightarrow>
                  I\<lparr>max_v := Fin (t_hit h1)\<rparr> = I\<lparr>max_v := Fin (t_hit h0)\<rparr> \<and>
                  surrounds I (t_hit h0)"
      using s1 by simp
    have inv3: "Some h1 = None \<Longrightarrow> I\<lparr>max_v := Fin (t_hit h1)\<rparr> = I" by simp
    from Cons.IH [OF ret' inv2 inv3] obtain res cur' where
      run: "World_loop objs r (I\<lparr>max_v := Fin (t_hit h1)\<rparr>) (Some h1) = Inr (res, cur')"
      and postN: "res = None \<Longrightarrow> Some h1 = (None :: HitRecord option)"
      and postS: "\<And>h. res = Some h \<Longrightarrow>
           surrounds I (t_hit h) \<and>
           (Some h1 = Some h \<or> (\<exists>ob\<in>set objs. hit ob r I = Inr (Some h, I))) \<and>
           (\<forall>h0. Some h1 = Some h0 \<longrightarrow> t_hit h \<le> t_hit h0) \<and>
           (\<forall>ob\<in>set objs. \<forall>h'. hit ob r I = Inr (Some h', I) \<longrightarrow> t_hit h \<le> t_hit h')"
      by blast
    from postN obtain h where rs: "res = Some h" by (cases res) auto
    from postS [OF rs] have p1: "surrounds I (t_hit h)"
      and p2: "h1 = h \<or> (\<exists>ob\<in>set objs. hit ob r I = Inr (Some h, I))"
      and p3: "t_hit h \<le> t_hit h1"
      and p4: "\<forall>ob\<in>set objs. \<forall>h'. hit ob r I = Inr (Some h', I) \<longrightarrow> t_hit h \<le> t_hit h'"
      by simp_all
    have q2: "c = Some h \<or> (\<exists>ob'\<in>set (ob # objs). hit ob' r I = Inr (Some h, I))"
    proof (cases "h1 = h")
      case True
      with hx xs show ?thesis by simp
    next
      case False
      with p2 show ?thesis by auto
    qed
    have q3: "\<forall>h0. c = Some h0 \<longrightarrow> t_hit h \<le> t_hit h0"
    proof (intro allI impI)
      fix h0 assume "c = Some h0"
      from lt [OF this] p3 show "t_hit h \<le> t_hit h0" by simp
    qed
    have q4: "\<forall>ob'\<in>set (ob # objs). \<forall>h'. hit ob' r I = Inr (Some h', I) \<longrightarrow> t_hit h \<le> t_hit h'"
      using p4 p3 hx xs by simp
    from step run rs p1 q2 q3 q4 show ?thesis by simp
  qed
qed

lemma Sphere_hit_returns:
  assumes "direction r \<noteq> from_xyz 0 0 0" and "radius \<noteq> 0"
  shows "\<exists>res. Sphere_hit center radius mat r t_range = Inr (res, t_range)"
proof -
  from assms(1) have "length_vec (direction r) \<noteq> 0"
    by (simp add: length_vec_zero_iff)
  then have "length_squared (direction r) \<noteq> 0"
    by (simp add: length_vec_def)
  with assms(2) show ?thesis
    by (simp add: Sphere_hit_def Let_def py_div_def truediv_def)
qed

lemma far_sphere_example:
  "hit (Sphere (from_xyz 0 0 (- 5)) 1 (Metal (from_xyz 1 1 1) 0))
       \<lparr>origin = from_xyz 0 0 0, direction = from_xyz 0 0 (- 1)\<rparr>
       \<lparr>min_v = Fin (1 / 1000), max_v = PosInf\<rparr>
   = Inr (Some \<lparr>p_hit = from_xyz 0 0 (- 4), normal = from_xyz 0 0 1, t_hit = 4,
                 material = Metal (from_xyz 1 1 1) 0, front_face = True\<rparr>,
          \<lparr>min_v = Fin (1 / 1000), max_v = PosInf\<rparr>)"
  by (simp add: Sphere_hit_def Let_def truediv_def py_div_def at_t_def surrounds_def)

lemma World_loop_example:
  "World_loop [Sphere (from_xyz 0 0 (- 5)) 1 (Metal (from_xyz 1 1 1) 0),
               Sphere (from_xyz 0 0 (- 2)) 1 (Lambertian (from_xyz 1 1 1))]
       \<lparr>origin = from_xyz 0 0 0, direction = from_xyz 0 0 (- 1)\<rparr>
       \<lparr>min_v = Fin (1 / 1000), max_v = PosInf\<rparr> None
   = Inr (Some \<lparr>p_hit = from_xyz 0 0 (- 1), normal = from_xyz 0 0 1, t_hit = 1,
                 material = Lambertian (from_xyz 1 1 1), front_face = True\<rparr>,
          \<lparr>min_v = Fin (1 / 1000), max_v = Fin 1\<rparr>)"
  by (simp add: Sphere_hit_def Let_def truediv_def py_div_def at_t_def surrounds_def)

lemma World_example:
  "hit (World [Sphere (from_xyz 0 0 (- 5)) 1 (Metal (from_xyz 1 1 1) 0),
               Sphere (from_xyz 0 0 (- 2)) 1 (Lambertian (from_xyz 1 1 1))])
       \<lparr>origin = from_xyz 0 0 0, direction = from_xyz 0 0 (- 1)\<rparr>
       \<lparr>min_v = Fin (1 / 1000), max_v = PosInf\<rparr>
   = Inr (Some \<lparr>p_hit = from_xyz 0 0 (- 1), normal = from_xyz 0 0 1, t_hit = 1,
                 material = Lambertian (from_xyz 1 1 1), front_face = True\<rparr>,
          \<lparr>min_v = Fin (1 / 1000), max_v = PosInf\<rparr>)"
  by (simp only: hit.simps Let_def World_loop_example) simp

text \<open>
  Claim C1, as the code has it. \<open>World.hit\<close> hands the ray to \<open>Sphere.hit\<close>, which divides by
  the squared length of the direction: for a ray whose direction is the zero vector the
  query of a scene with a sphere raises \<open>ZeroDivisionError\<close> and returns neither a hit
  record nor none.
\<close>

theorem World_hit_zero_direction:
  "hit (World [Sphere (from_xyz 0 0 (- 2)) 1 (Lambertian (from_xyz 1 1 1))])
       \<lparr>origin = from_xyz 0 0 0, direction = from_xyz 0 0 0\<rparr>
       \<lparr>min_v = Fin (1 / 1000), max_v = PosInf\<rparr>
   = Inl ZeroDivisionError"
  by (simp add: Sphere_hit_def Let_def py_div_def)

text \<open>
  Claim C1, amended. For every ray, interval and scene such that the hit test of each
  object of the scene returns on that interval (as \<open>Sphere_hit_returns\<close> shows for every
  sphere of non-zero radius and every ray whose direction is not the zero vector),
  \<open>World.hit\<close> returns, and leaves the interval object of the caller as it was. It returns
  none exactly when every object returns none on the interval; a record it returns is the
  record that one of the objects returns on the interval, its \<open>t\<close> lies strictly inside the
  interval, and no object returns a record with a smaller \<open>t\<close>. The narrowing happens on
  the copy \<open>curr_range\<close> alone (\<open>World_loop_example\<close> shows the copy after a query).
\<close>

theorem World_hit_closest:
  assumes "\<And>ob. ob \<in> set objs \<Longrightarrow> \<exists>x. hit ob r t_range = Inr x"
  shows "\<exists>res. hit (World objs) r t_range = Inr (res, t_range) \<and>
    (res = None \<longrightarrow> (\<forall>ob\<in>set objs. hit ob r t_range = Inr (None, t_range))) \<and>
    (\<forall>h. res = Some h \<longrightarrow>
         surrounds t_range (t_hit h) \<and>
         (\<exists>ob\<in>set objs. hit ob r t_range = Inr (Some h, t_range)) \<and>
         (\<forall>ob\<in>set objs. \<forall>h'. hit ob r t_range = Inr (Some h', t_range) \<longrightarrow>
            t_hit h \<le> t_hit h'))"
proof -
  have inv: "\<And>h0. (None :: HitRecord option) = Some h0 \<Longrightarrow>
               t_range = t_range\<lparr>max_v := Fin (t_hit h0)\<rparr> \<and> surrounds t_range (t_hit h0)"
    by simp
  have inv0: "(None :: HitRecord option) = None \<Longrightarrow> t_range = t_range" by simp
  note L = World_loop_closest [where objs = objs and r = r and I = t_range and c = None
      and cur = t_range]
  from L [OF assms inv inv0] obtain res cur' where
    run: "World_loop objs r t_range None = Inr (res, cur')"
    and postN: "res = None \<Longrightarrow> (\<forall>ob\<in>set objs. hit ob r t_range = Inr (None, t_range))"
    and postS: "\<And>h. res = Some h \<Longrightarrow>
         surrounds t_range (t_hit h) \<and>
         ((None :: HitRecord option) = Some h \<or>
            (\<exists>ob\<in>set objs. hit ob r t_range = Inr (Some h, t_range))) \<and>
         (\<forall>ob\<in>set objs. \<forall>h'. hit ob r t_range = Inr (Some h', t_range) \<longrightarrow>
            t_hit h \<le> t_hit h')"
    by blast
  from run have "hit (World objs) r t_range = Inr (res, t_range)"
    by (simp add: Let_def)
  with postN postS show ?thesis by auto
qed

theorem World_hit_closest_witness:
  "hit (Sphere (from_xyz 0 0 (- 5)) 1 (Metal (from_xyz 1 1 1) 0))
       \<lparr>origin = from_xyz 0 0 0, direction = from_xyz 0 0 (- 1)\<rparr>
       \<lparr>min_v = Fin (1 / 1000), max_v = PosInf\<rparr>
   = Inr (Some \<lparr>p_hit = from_xyz 0 0 (- 4), normal = from_xyz 0 0 1, t_hit = 4,
                 material = Metal (from_xyz 1 1 1) 0, front_face = True\<rparr>,
          \<lparr>min_v = Fin (1 / 1000), max_v = PosInf\<rparr>) \<and>
   hit (Sphere (from_xyz 0 0 (- 2)) 1 (Lambertian (from_xyz 1 1 1)))
       \<lparr>origin = from_xyz 0 0 0, direction = from_xyz 0 0 (- 1)\<rparr>
       \<lparr>min_v = Fin (1 / 1000), max_v = PosInf\<rparr>
   = Inr (Some \<lparr>p_hit = from_xyz 0 0 (- 1), normal = from_xyz 0 0 1, t_hit = 1,
                 material = Lambertian (from_xyz 1 1 1), front_face = True\<rparr>,
          \<lparr>min_v = Fin (1 / 1000), max_v = PosInf\<rparr>) \<and>
   hit (World [Sphere (from_xyz 0 0 (- 5)) 1 (Metal (from_xyz 1 1 1) 0),
               Sphere (from_xyz 0 0 (- 2)) 1 (Lambertian (from_xyz 1 1 1))])
       \<lparr>origin = from_xyz 0 0 0, direction = from_xyz 0 0 (- 1)\<rparr>
       \<lparr>min_v = Fin (1 / 1000), max_v = PosInf\<rparr>
   = Inr (Some \<lparr>p_hit = from_xyz 0 0 (- 1), normal = from_xyz 0 0 1, t_hit = 1,
                 material = Lambertian (from_xyz 1 1 1), front_face = True\<rparr>,
          \<lparr>min_v = Fin (1 / 1000), max_v = PosInf\<rparr>) \<and>
   surrounds \<lparr>min_v = Fin (1 / 1000), max_v = PosInf\<rparr> 1"
proof -
  let ?r = "\<lparr>origin = from_xyz 0 0 0, direction = from_xyz 0 0 (- 1)\<rparr>"
  let ?I = "\<lparr>min_v = Fin (1 / 1000), max_v = PosInf\<rparr>"
  let ?objs = "[Sphere (from_xyz 0 0 (- 5)) 1 (Metal (from_xyz 1 1 1) 0),
               Sphere (from_xyz 0 0 (- 2)) 1 (Lambertian (from_xyz 1 1 1))]"
  have ret: "\<exists>x. hit ob ?r ?I = Inr x" if "ob \<in> set ?objs" for ob
    using that far_sphere_example sphere_example by auto
  from World_hit_closest [of ?objs ?r ?I, OF ret] World_example far_sphere_example sphere_example
  show ?thesis by simp
qed

section \<open>The parallel and the serial render path (camera.py)\<close>

lemma Camera_init_small:
  "Camera_init 1 1 1 0 90 None None None 0 10 =
     Inr \<lparr>image_width = 1, samples_per_pixel = 1, image_height = 1, max_depth = 0,
          defocus_angle = 0, camera_center = from_xyz 0 0 0,
          pixel_delta_u = from_xyz 20 0 0, pixel_delta_v = from_xyz 0 (- 20) 0,
          pixel00_loc = from_xyz 0 0 (- 10),
          defocus_disk_u = from_xyz 0 0 0, defocus_disk_v = from_xyz 0 0 0\<rparr>"
proof -
  have t: "tan (degrees_to_radians 90 / 2) = 1"
    by (simp add: degrees_to_radians_def tan_45)
  have t0: "tan (degrees_to_radians (0 / 2)) = 0"
    by (simp add: degrees_to_radians_def)
  show ?thesis
    unfolding Camera_init_def Let_def t t0
    by (simp add: py_div_def py_int_def unit_vector_def truediv_def length_vec_def cross_def)
qed

lemma save_image_to_png_small_image:
  assumes "0 \<le> image_height cam" "0 \<le> image_width cam" "0 < cpu_count"
    and "nat (image_height cam) * nat (image_width cam) < cpu_count * 8"
  shows "save_image_to_png cam world cpu_count supplies order
           = Inl (ValueError ''range() arg 3 must not be zero'')"
  using assms
  by (simp add: save_image_to_png_def np_zeros_def make_chunks_def range_step_def Let_def
        length_all_pixels)

text \<open>
  Claim C2 at an image with fewer pixels than chunks. The camera is the one that
  \<open>Camera(aspect_ratio=1, image_width=1, samples_per_pixel=1, max_depth=0)\<close> constructs
  (\<open>Camera_init_small\<close>), on a machine with one core: 8 chunks for 1 pixel, so the chunk
  size is 0 and \<open>range(0, len(pixels), 0)\<close> raises \<open>ValueError\<close> in the parallel path,
  whatever the scene, the generators of the workers and the completion order, while the
  serial path renders the one pixel.
\<close>

theorem small_image_parallel_raises:
  "save_image_to_png
     \<lparr>image_width = 1, samples_per_pixel = 1, image_height = 1, max_depth = 0,
      defocus_angle = 0, camera_center = from_xyz 0 0 0,
      pixel_delta_u = from_xyz 20 0 0, pixel_delta_v = from_xyz 0 (- 20) 0,
      pixel00_loc = from_xyz 0 0 (- 10),
      defocus_disk_u = from_xyz 0 0 0, defocus_disk_v = from_xyz 0 0 0\<rparr>
     world 1 supplies order
   = Inl (ValueError ''range() arg 3 must not be zero'') \<and>
   save_image_to_png_serial
     \<lparr>image_width = 1, samples_per_pixel = 1, image_height = 1, max_depth = 0,
      defocus_angle = 0, camera_center = from_xyz 0 0 0,
      pixel_delta_u = from_xyz 20 0 0, pixel_delta_v = from_xyz 0 (- 20) 0,
      pixel00_loc = from_xyz 0 0 (- 10),
      defocus_disk_u = from_xyz 0 0 0, defocus_disk_v = from_xyz 0 0 0\<rparr>
     world [1 / 2, 1 / 2]
   = Inr [[[0, 0, 0]]]"
proof -
  let ?cam = "\<lparr>image_width = 1, samples_per_pixel = 1, image_height = 1, max_depth = 0,
      defocus_angle = 0, camera_center = from_xyz 0 0 0,
      pixel_delta_u = from_xyz 20 0 0, pixel_delta_v = from_xyz 0 (- 20) 0,
      pixel00_loc = from_xyz 0 0 (- 10),
      defocus_disk_u = from_xyz 0 0 0, defocus_disk_v = from_xyz 0 0 0\<rparr>"
  have par: "save_image_to_png ?cam world 1 supplies order
               = Inl (ValueError ''range() arg 3 must not be zero'')"
    by (simp add: save_image_to_png_def np_zeros_def make_chunks_def range_step_def Let_def
          all_pixels_def)
  have body: "pixel_body ?cam world 0 0 [1 / 2, 1 / 2] = Inr ([0, 0, 0], [])"
    by (simp add: pixel_body_def get_ray_def sample_square_def truediv_def
          make_color_array_def linear_to_gamma_def clamp_def py_int_def clip_uint8_def
          red_def green_def blue_def Let_def)
  have ser: "save_image_to_png_serial ?cam world [1 / 2, 1 / 2] = Inr [[[0, 0, 0]]]"
    by (simp add: save_image_to_png_serial_def np_zeros_def body set_pixel_def)
  from par ser show ?thesis by simp
qed

subsection \<open>Images with at least as many pixels as chunks\<close>

lemma process_chunk_append:
  "process_chunk cam world (xs @ ys) rs =
     (case process_chunk cam world xs rs of
        Inl e \<Rightarrow> Inl e
      | Inr (o1, rs1) \<Rightarrow>
          (case process_chunk cam world ys rs1 of
             Inl e \<Rightarrow> Inl e
           | Inr (o2, rs2) \<Rightarrow> Inr (o1 @ o2, rs2)))"
proof (induction xs arbitrary: rs)
  case Nil
  show ?case by (simp split: sum.splits)
next
  case (Cons x xs)
  obtain j i where x: "x = (j, i)" by (cases x)
  show ?case
    by (simp add: x Cons.IH split: sum.splits prod.splits)
qed

lemma process_chunk_keys:
  "process_chunk cam world xs rs = Inr (out, rs') \<Longrightarrow> map fst out = xs"
proof (induction xs arbitrary: rs out)
  case Nil
  then show ?case by simp
next
  case (Cons x xs)
  obtain j i where x: "x = (j, i)" by (cases x)
  from Cons.prems show ?case
    by (auto simp: x split: sum.splits prod.splits dest: Cons.IH)
qed

lemma merge_chunk_append:
  "merge_chunk (o1 @ o2) fb =
     (case merge_chunk o1 fb of Inl e \<Rightarrow> Inl e | Inr fb1 \<Rightarrow> merge_chunk o2 fb1)"
proof (induction o1 arbitrary: fb)
  case Nil
  show ?case by simp
next
  case (Cons x o1)
  obtain j i c where x: "x = ((j, i), c)" by (cases x) auto
  show ?case by (simp add: x Cons.IH split: sum.splits)
qed

lemma merge_results_concat: "merge_results results fb = merge_chunk (concat results) fb"
  by (induction results arbitrary: fb) (simp_all add: merge_chunk_append split: sum.splits)

lemma serial_row_as_chunk:
  "serial_row cam world j cols fb rs = Inr (fb', rs') \<longleftrightarrow>
     (\<exists>out. process_chunk cam world (map (Pair j) cols) rs = Inr (out, rs') \<and>
            merge_chunk out fb = Inr fb')"
  by (induction cols arbitrary: fb rs) (auto split: sum.splits prod.splits)

lemma serial_rows_as_chunk:
  "serial_rows cam world rows fb rs = Inr (fb', rs') \<longleftrightarrow>
     (\<exists>out. process_chunk cam world
               (concat (map (\<lambda>j. map (Pair j) [0..<nat (image_width cam)]) rows)) rs
             = Inr (out, rs') \<and>
            merge_chunk out fb = Inr fb')"
proof (induction rows arbitrary: fb rs)
  case Nil
  show ?case by auto
next
  case (Cons j rows)
  let ?row = "map (Pair j) [0..<nat (image_width cam)]"
  let ?rest = "concat (map (\<lambda>j. map (Pair j) [0..<nat (image_width cam)]) rows)"
  show ?case (is "?L \<longleftrightarrow> ?R")
  proof
    assume l: ?L
    then obtain fb1 rs1 where
      r: "serial_row cam world j [0..<nat (image_width cam)] fb rs = Inr (fb1, rs1)"
      and rest: "serial_rows cam world rows fb1 rs1 = Inr (fb', rs')"
      by (auto split: sum.splits)
    from r obtain o1 where o1: "process_chunk cam world ?row rs = Inr (o1, rs1)"
      "merge_chunk o1 fb = Inr fb1"
      by (auto simp: serial_row_as_chunk)
    from rest obtain o2 where o2: "process_chunk cam world ?rest rs1 = Inr (o2, rs')"
      "merge_chunk o2 fb1 = Inr fb'"
      by (auto simp: Cons.IH)
    have "process_chunk cam world (?row @ ?rest) rs = Inr (o1 @ o2, rs')"
      by (simp add: process_chunk_append o1 o2)
    moreover have "merge_chunk (o1 @ o2) fb = Inr fb'"
      by (simp add: merge_chunk_append o1 o2)
    ultimately show ?R by auto
  next
    assume ?R
    then obtain out where out: "process_chunk cam world (?row @ ?rest) rs = Inr (out, rs')"
      and m: "merge_chunk out fb = Inr fb'"
      by auto
    from out obtain o1 rs1 o2 where o1: "process_chunk cam world ?row rs = Inr (o1, rs1)"
      and o2: "process_chunk cam world ?rest rs1 = Inr (o2, rs')"
      and oo: "out = o1 @ o2"
      by (auto simp: process_chunk_append split: sum.splits)
    from m oo obtain fb1 where m1: "merge_chunk o1 fb = Inr fb1"
      and m2: "merge_chunk o2 fb1 = Inr fb'"
      by (auto simp: merge_chunk_append split: sum.splits)
    from o1 m1 have "serial_row cam world j [0..<nat (image_width cam)] fb rs = Inr (fb1, rs1)"
      by (auto simp: serial_row_as_chunk)
    moreover from o2 m2 have "serial_rows cam world rows fb1 rs1 = Inr (fb', rs')"
      by (auto simp: Cons.IH)
    ultimately show ?L by simp
  qed
qed

lemma set_pixel_swap:
  assumes "(j, i) \<noteq> (j', i')"
  shows "(case set_pixel fb j i c of Inl e \<Rightarrow> Inl e | Inr fb1 \<Rightarrow> set_pixel fb1 j' i' c')
       = (case set_pixel fb j' i' c' of Inl e \<Rightarrow> Inl e | Inr fb1 \<Rightarrow> set_pixel fb1 j i c)"
proof (cases "j = j'")
  case True
  with assms have "i \<noteq> i'" by simp
  with True show ?thesis
    by (auto simp: set_pixel_def list_update_swap)
next
  case False
  then show ?thesis
    by (auto simp: set_pixel_def list_update_swap nth_list_update)
qed

lemma merge_chunk_swap:
  assumes "fst x \<noteq> fst y"
  shows "merge_chunk (x # y # rest) fb = merge_chunk (y # x # rest) fb"
proof -
  obtain j i c where x: "x = ((j, i), c)" by (cases x) auto
  obtain j' i' c' where y: "y = ((j', i'), c')" by (cases y) auto
  from assms x y have ne: "(j, i) \<noteq> (j', i')" by simp
  have "merge_chunk (x # y # rest) fb =
          (case (case set_pixel fb j i c of Inl e \<Rightarrow> Inl e
                 | Inr fb1 \<Rightarrow> set_pixel fb1 j' i' c') of
             Inl e \<Rightarrow> Inl e | Inr fb2 \<Rightarrow> merge_chunk rest fb2)"
    by (simp add: x y split: sum.splits)
  also have "\<dots> =
          (case (case set_pixel fb j' i' c' of Inl e \<Rightarrow> Inl e
                 | Inr fb1 \<Rightarrow> set_pixel fb1 j i c) of
             Inl e \<Rightarrow> Inl e | Inr fb2 \<Rightarrow> merge_chunk rest fb2)"
    by (simp only: set_pixel_swap [OF ne])
  also have "\<dots> = merge_chunk (y # x # rest) fb"
    by (simp add: x y split: sum.splits)
  finally show ?thesis .
qed

lemma merge_chunk_to_front:
  assumes "fst x \<notin> fst ` set ys1"
  shows "merge_chunk (ys1 @ x # ys2) fb = merge_chunk (x # ys1 @ ys2) fb"
  using assms
proof (induction ys1 arbitrary: fb)
  case Nil
  show ?case by simp
next
  case (Cons y ys1)
  obtain j i c where y: "y = ((j, i), c)" by (cases y) auto
  from Cons.prems have ne: "fst y \<noteq> fst x" and rest: "fst x \<notin> fst ` set ys1" by auto
  have "merge_chunk ((y # ys1) @ x # ys2) fb
          = (case set_pixel fb j i c of Inl e \<Rightarrow> Inl e
             | Inr fb1 \<Rightarrow> merge_chunk (ys1 @ x # ys2) fb1)"
    by (simp add: y)
  also have "\<dots> = (case set_pixel fb j i c of Inl e \<Rightarrow> Inl e
             | Inr fb1 \<Rightarrow> merge_chunk (x # ys1 @ ys2) fb1)"
    by (simp add: Cons.IH [OF rest] split: sum.splits)
  also have "\<dots> = merge_chunk (y # x # ys1 @ ys2) fb"
    by (simp add: y)
  also have "\<dots> = merge_chunk (x # y # ys1 @ ys2) fb"
    by (rule merge_chunk_swap [OF ne])
  finally show ?case by simp
qed

lemma merge_chunk_perm:
  assumes "mset ys = mset xs" and "distinct (map fst xs)"
  shows "merge_chunk ys fb = merge_chunk xs fb"
  using assms
proof (induction xs arbitrary: ys fb)
  case Nil
  then show ?case by simp
next
  case (Cons x xs)
  from Cons.prems(1) have "x \<in> set ys"
    by (metis list.set_intros(1) mset_eq_setD)
  then obtain ys1 ys2 where ys: "ys = ys1 @ x # ys2"
    by (auto dest: split_list)
  with Cons.prems(1) have ms: "mset (ys1 @ ys2) = mset xs" by simp
  then have "set (ys1 @ ys2) = set xs" by (rule mset_eq_setD)
  with Cons.prems(2) have "fst x \<notin> fst ` set ys1" by auto
  then have "merge_chunk ys fb = merge_chunk (x # ys1 @ ys2) fb"
    unfolding ys by (rule merge_chunk_to_front)
  moreover from Cons.prems(2) have "distinct (map fst xs)" by simp
  note Cons.IH [OF ms this]
  then have "merge_chunk (x # ys1 @ ys2) fb = merge_chunk (x # xs) fb"
    by (cases x) (auto split: sum.splits prod.splits)
  ultimately show ?case by simp
qed

lemma make_chunks_Inr_concat:
  assumes "make_chunks pixels num_chunks = Inr chunks"
  shows "concat chunks = pixels"
proof -
  from assms have "num_chunks \<noteq> 0" and "length pixels div num_chunks \<noteq> 0"
    by (auto simp: make_chunks_def range_step_def Let_def split: if_splits)
  then have "1 \<le> length pixels div num_chunks" by simp
  from make_chunks_concat [OF this] assms show ?thesis by auto
qed

lemma collect_results_all:
  assumes "\<And>k. k \<in> set ks \<Longrightarrow> \<exists>r. f k = Inr (g k, r)"
  shows "collect_results (map f ks) = Inr (map g ks)"
  using assms
proof (induction ks)
  case Nil
  show ?case by simp
next
  case (Cons k ks)
  from Cons.prems [of k] obtain r where "f k = Inr (g k, r)" by auto
  moreover have "collect_results (map f ks) = Inr (map g ks)"
    using Cons.prems by (intro Cons.IH) simp
  ultimately show ?case by simp
qed

lemma mset_concat_map_cong:
  assumes "mset xs = mset ys"
  shows "mset (concat (map g xs)) = mset (concat (map g ys))"
proof -
  have "mset (concat (map g zs)) = sum_mset (image_mset (\<lambda>k. mset (g k)) (mset zs))" for zs
    by (induction zs) simp_all
  with assms show ?thesis by simp
qed

lemma concat_split_nth:
  assumes "k < length xss"
  shows "concat xss = concat (take k xss) @ xss ! k @ concat (drop (Suc k) xss)"
proof -
  from assms have "xss = take k xss @ xss ! k # drop (Suc k) xss"
    by (rule id_take_nth_drop)
  then have "concat xss = concat (take k xss @ xss ! k # drop (Suc k) xss)" by simp
  then show ?thesis by simp
qed

text \<open>
  Where chunks can be built, the two paths agree. Let the serial path return a frame
  buffer on the generator state \<open>rs\<close>, and let every chunk start on the state that the
  serial loop has reached at the first pixel of the chunk (the same sequence of random
  values). Then the parallel path returns the same frame buffer, in whatever order the
  chunks complete.
\<close>

lemma parallel_equals_serial:
  assumes ser: "save_image_to_png_serial cam world rs = Inr fb"
    and mk: "make_chunks (all_pixels (nat (image_height cam)) (nat (image_width cam)))
               (cpu_count * 8) = Inr chunks"
    and same: "\<And>k. k < length chunks \<Longrightarrow>
                 \<exists>pre. process_chunk cam world (concat (take k chunks)) rs = Inr (pre, supplies k)"
    and perm: "mset order = mset [0..<length chunks]"
  shows "save_image_to_png cam world cpu_count supplies order = Inr fb"
proof -
  let ?pixels = "all_pixels (nat (image_height cam)) (nat (image_width cam))"
  let ?n = "length chunks"
  let ?f = "\<lambda>k. process_chunk cam world (chunks ! k) (supplies k)"
  from ser obtain z rs' where z: "np_zeros (image_height cam) (image_width cam) = Inr z"
    and rows: "serial_rows cam world [0..<nat (image_height cam)] z rs = Inr (fb, rs')"
    by (auto simp: save_image_to_png_serial_def split: sum.splits)
  have px: "concat (map (\<lambda>j. map (Pair j) [0..<nat (image_width cam)])
              [0..<nat (image_height cam)]) = ?pixels"
    by (simp add: all_pixels_def)
  from rows obtain out where out: "process_chunk cam world ?pixels rs = Inr (out, rs')"
    and merged: "merge_chunk out z = Inr fb"
    unfolding serial_rows_as_chunk px by blast
  have cc: "concat chunks = ?pixels"
    using mk by (rule make_chunks_Inr_concat)
  have each: "\<exists>o1 r. ?f k = Inr (o1, r)" if k: "k < ?n" for k
  proof -
    from same [OF k] obtain pre where
      pre: "process_chunk cam world (concat (take k chunks)) rs = Inr (pre, supplies k)"
      by blast
    from out cc concat_split_nth [OF k]
    have "process_chunk cam world
            (concat (take k chunks) @ chunks ! k @ concat (drop (Suc k) chunks)) rs
          = Inr (out, rs')"
      by simp
    with pre show ?thesis
      by (auto simp: process_chunk_append split: sum.splits)
  qed
  define g where "g = (\<lambda>k. case ?f k of Inl e \<Rightarrow> [] | Inr (o1, r) \<Rightarrow> o1)"
  have g: "\<exists>r. ?f k = Inr (g k, r)" if "k < ?n" for k
    using each [OF that] by (auto simp: g_def)
  have prefix: "\<exists>r. process_chunk cam world (concat (take k chunks)) rs
                    = Inr (concat (map g [0..<k]), r)" if "k \<le> ?n" for k
    using that
  proof (induction k)
    case 0
    show ?case by simp
  next
    case (Suc k)
    then have k: "k < ?n" by simp
    from Suc.IH k obtain r where
      r: "process_chunk cam world (concat (take k chunks)) rs = Inr (concat (map g [0..<k]), r)"
      by auto
    with same [OF k] have "r = supplies k" by auto
    moreover from g [OF k] obtain r' where "?f k = Inr (g k, r')" by blast
    moreover have "concat (take (Suc k) chunks) = concat (take k chunks) @ chunks ! k"
      using k by (simp add: take_Suc_conv_app_nth)
    ultimately have "process_chunk cam world (concat (take (Suc k) chunks)) rs
                       = Inr (concat (map g [0..<k]) @ g k, r')"
      using r by (simp add: process_chunk_append)
    then show ?case by auto
  qed
  from prefix [of ?n] out cc have out_eq: "out = concat (map g [0..<?n])"
    by auto
  from perm have so: "set order = {0..<?n}"
    by (metis mset_eq_setD set_upt)
  have "collect_results (map ?f order) = Inr (map g order)"
    by (rule collect_results_all) (use so g in auto)
  moreover have "merge_results (map g order) z = Inr fb"
  proof -
    have "distinct (map fst out)"
      using process_chunk_keys [OF out] distinct_all_pixels by simp
    moreover have "mset (concat (map g order)) = mset out"
      unfolding out_eq using perm by (rule mset_concat_map_cong)
    ultimately have "merge_chunk (concat (map g order)) z = merge_chunk out z"
      by (rule merge_chunk_perm [rotated])
    with merged show ?thesis by (simp add: merge_results_concat)
  qed
  ultimately show ?thesis
    using z mk by (simp add: save_image_to_png_def Let_def)
qed

lemma pixel_body_black:
  assumes "max_depth cam = 0" "samples_per_pixel cam = 1" "defocus_angle cam \<le> 0"
  shows "pixel_body cam world j i (s1 # s2 # rs) = Inr ([0, 0, 0], rs)"
  using assms
  by (simp add: pixel_body_def get_ray_def sample_square_def truediv_def
        make_color_array_def linear_to_gamma_def clamp_def py_int_def clip_uint8_def
        red_def green_def blue_def Let_def)

lemma process_chunk_black:
  assumes "max_depth cam = 0" "samples_per_pixel cam = 1" "defocus_angle cam \<le> 0"
  shows "process_chunk cam world xs (replicate (2 * length xs + m) s)
           = Inr (map (\<lambda>p. (p, [0, 0, 0])) xs, replicate m s)"
proof (induction xs)
  case Nil
  show ?case by simp
next
  case (Cons x xs)
  obtain j i where x: "x = (j, i)" by (cases x)
  have r: "replicate (2 * length (x # xs) + m) s = s # s # replicate (2 * length xs + m) s"
    by simp
  show ?case
    unfolding r x by (simp add: pixel_body_black [OF assms] Cons.IH)
qed

text \<open>
  An image of 8 by 1 pixels on one core: eight chunks of one pixel, completing in reverse
  order, each on the generator state of the serial loop.
\<close>

lemma strip_example:
  "save_image_to_png
     \<lparr>image_width = 8, samples_per_pixel = 1, image_height = 1, max_depth = 0,
      defocus_angle = 0, camera_center = from_xyz 0 0 0,
      pixel_delta_u = from_xyz (20 / 8) 0 0, pixel_delta_v = from_xyz 0 (- 20 / 8) 0,
      pixel00_loc = from_xyz (- 35 / 4) 0 (- 10),
      defocus_disk_u = from_xyz 0 0 0, defocus_disk_v = from_xyz 0 0 0\<rparr>
     world 1 (\<lambda>k. replicate (16 - 2 * k) (1 / 2)) (rev [0..<8])
   = Inr [replicate 8 [0, 0, 0]] \<and>
   save_image_to_png_serial
     \<lparr>image_width = 8, samples_per_pixel = 1, image_height = 1, max_depth = 0,
      defocus_angle = 0, camera_center = from_xyz 0 0 0,
      pixel_delta_u = from_xyz (20 / 8) 0 0, pixel_delta_v = from_xyz 0 (- 20 / 8) 0,
      pixel00_loc = from_xyz (- 35 / 4) 0 (- 10),
      defocus_disk_u = from_xyz 0 0 0, defocus_disk_v = from_xyz 0 0 0\<rparr>
     world (replicate 16 (1 / 2))
   = Inr [replicate 8 [0, 0, 0]]"
proof -
  let ?cam = "\<lparr>image_width = 8, samples_per_pixel = 1, image_height = 1, max_depth = 0,
      defocus_angle = 0, camera_center = from_xyz 0 0 0,
      pixel_delta_u = from_xyz (20 / 8) 0 0, pixel_delta_v = from_xyz 0 (- 20 / 8) 0,
      pixel00_loc = from_xyz (- 35 / 4) 0 (- 10),
      defocus_disk_u = from_xyz 0 0 0, defocus_disk_v = from_xyz 0 0 0\<rparr>"
  let ?sup = "\<lambda>k. replicate (16 - 2 * k) (1 / 2 :: real)"
  have c: "max_depth ?cam = 0" "samples_per_pixel ?cam = 1" "defocus_angle ?cam \<le> 0"
    by simp_all
  have pix: "all_pixels (nat (image_height ?cam)) (nat (image_width ?cam))
               = [(0, 0), (0, 1), (0, 2), (0, 3), (0, 4), (0, 5), (0, 6), (0, 7)]"
    by (simp add: all_pixels_def upt_conv_Cons)
  have mk: "make_chunks (all_pixels (nat (image_height ?cam)) (nat (image_width ?cam))) (1 * 8)
              = Inr [[(0, 0)], [(0, 1)], [(0, 2)], [(0, 3)], [(0, 4)], [(0, 5)], [(0, 6)], [(0, 7)]]"
    unfolding pix by code_simp
  have run: "process_chunk ?cam world xs (replicate (2 * length xs + m) (1 / 2))
               = Inr (map (\<lambda>p. (p, [0, 0, 0])) xs, replicate m (1 / 2))" for xs m
    by (rule process_chunk_black [OF c])
  have ser: "save_image_to_png_serial ?cam world (replicate 16 (1 / 2))
               = Inr [replicate 8 [0, 0, 0]]"
  proof -
    have "process_chunk ?cam world
            [(0, 0), (0, 1), (0, 2), (0, 3), (0, 4), (0, 5), (0, 6), (0, 7)]
            (replicate 16 (1 / 2))
          = Inr (map (\<lambda>p. (p, [0, 0, 0]))
                  [(0, 0), (0, 1), (0, 2), (0, 3), (0, 4), (0, 5), (0, 6), (0, 7)], [])"
      using run [of "[(0, 0), (0, 1), (0, 2), (0, 3), (0, 4), (0, 5), (0, 6), (0, 7)]" 0]
      by simp
    moreover have "merge_chunk (map (\<lambda>p. (p, [0, 0, 0]))
                  [(0, 0), (0, 1), (0, 2), (0, 3), (0, 4), (0, 5), (0, 6), (0, 7)])
                  [replicate 8 [0, 0, 0]] = Inr [replicate 8 [0, 0, 0]]"
      by (simp add: set_pixel_def numeral_eq_Suc)
    ultimately have "serial_rows ?cam world [0..<nat (image_height ?cam)]
                       [replicate 8 [0, 0, 0]] (replicate 16 (1 / 2))
                     = Inr ([replicate 8 [0, 0, 0]], [])"
      unfolding serial_rows_as_chunk using pix by (simp add: all_pixels_def)
    then show ?thesis
      by (simp add: save_image_to_png_serial_def np_zeros_def)
  qed
  have same: "\<exists>pre. process_chunk ?cam world
                (concat (take k [[(0, 0)], [(0, 1)], [(0, 2)], [(0, 3)], [(0, 4)], [(0, 5)],
                                 [(0, 6)], [(0, 7)]]))
                (replicate 16 (1 / 2)) = Inr (pre, ?sup k)"
    if "k < length [[(0::nat, 0::nat)], [(0, 1)], [(0, 2)], [(0, 3)], [(0, 4)], [(0, 5)],
                    [(0, 6)], [(0, 7)]]" for k
  proof -
    let ?ch = "[[(0::nat, 0::nat)], [(0, 1)], [(0, 2)], [(0, 3)], [(0, 4)], [(0, 5)],
                [(0, 6)], [(0, 7)]]"
    from that have k: "k < 8" by simp
    have len: "length (concat (take k ?ch)) = k"
      using k by (simp add: length_concat take_Cons' sum_list_triv) 
    from k have "(16::nat) = 2 * k + (16 - 2 * k)" by simp
    then have "replicate 16 (1 / 2 :: real)
                 = replicate (2 * length (concat (take k ?ch)) + (16 - 2 * k)) (1 / 2)"
      using len by simp
    then show ?thesis
      using run [of "concat (take k ?ch)" "16 - 2 * k"] by auto
  qed
  have perm: "mset (rev [0..<8])
                = mset [0..<length [[(0::nat, 0::nat)], [(0, 1)], [(0, 2)], [(0, 3)], [(0, 4)],
                                    [(0, 5)], [(0, 6)], [(0, 7)]]]"
  proof -
    have "length [[(0::nat, 0::nat)], [(0, 1)], [(0, 2)], [(0, 3)], [(0, 4)],
                  [(0, 5)], [(0, 6)], [(0, 7)]] = 8"
      by simp
    then show ?thesis by (simp only: mset_rev)
  qed
  from parallel_equals_serial [OF ser mk same perm] ser show ?thesis by simp
qed


end
